theory Spec2Isabelle
  imports Main
begin

section \<open>Tab and Tabs of the browser shell: the embedding\<close>

text \<open>
  The source is the second document of \<^verbatim>\<open>browser/index.ts\<close>: the classes
  \<^verbatim>\<open>Tab\<close> and \<^verbatim>\<open>Tabs\<close>. Objects have identity and are mutated in place, so Tab
  objects live in a store (\<open>heap\<close>) and are named by references; the collection, the
  selection, the window's listener list and the notification payloads all hold references.
  A JavaScript exception is the result \<open>Throw\<close>, returned with the store as it is at the
  moment of the throw (nothing is rolled back).
\<close>

subsection \<open>Host objects\<close>

record rect =
  rect_x :: int
  rect_y :: int
  rect_width :: int
  rect_height :: int

text \<open>
  A \<^verbatim>\<open>WebContentsView\<close> of the host. \<open>setBounds_calls\<close> counts the calls of
  \<^verbatim>\<open>setBounds\<close>, so that the number of layout recomputations can be read off.
\<close>

record view_surface =
  visible :: bool
  bounds :: "rect option"
  borderRadius :: "int option"
  setBounds_calls :: nat

text \<open>The \<^verbatim>\<open>webContents\<close> of a view, as far as \<^verbatim>\<open>Tab.destroy\<close> uses it.\<close>

record web_contents =
  wc_isDestroyed :: bool
  wc_devToolsOpened :: bool
  wc_destroyed_emits :: nat

text \<open>
  The \<^verbatim>\<open>BrowserWindow\<close>. \<open>resize_listeners\<close> is the listener array of its
  \<^verbatim>\<open>'resize'\<close> event: each entry is the bound \<^verbatim>\<open>invalidateLayout\<close> of a Tab, named by
  the Tab's reference. \<open>childViews\<close> are the views attached to \<^verbatim>\<open>contentView\<close>, named by
  the owning Tab. \<open>win_destroy_calls\<close> counts the calls of \<^verbatim>\<open>window.destroy()\<close>.
\<close>

record window =
  win_size :: "int \<times> int"
  childViews :: "nat list"
  resize_listeners :: "nat list"
  win_destroy_calls :: nat

subsection \<open>Tab objects and the store\<close>

text \<open>
  The fields of a Tab. \<open>tab_window\<close>, \<open>tab_view\<close> and \<open>tab_webContents\<close> say
  whether \<^verbatim>\<open>this.window\<close>, \<^verbatim>\<open>this.view\<close> and \<^verbatim>\<open>this.webContents\<close> hold an object
  (\<open>True\<close>) or \<^verbatim>\<open>undefined\<close> (\<open>False\<close>); the window is always the one window of the
  collection, the view and its webContents are the host objects \<open>surface\<close> and \<open>wc\<close>,
  which outlive the fields that point to them.
\<close>

record tab =
  tab_id :: nat
  destroyed :: bool
  tab_window :: bool
  tab_view :: bool
  tab_webContents :: bool
  surface :: view_surface
  wc :: web_contents

record world =
  heap :: "nat \<Rightarrow> tab"
  next_ref :: nat
  next_wc_id :: nat
  win :: window
  tabList :: "nat list"
  selected :: "nat option"
  tabs_window :: bool

datatype error = TypeError | NotFound nat

datatype 'a res = Return 'a | Throw error

datatype event = TabCreated nat | TabSelected nat | TabDestroyed nat

text \<open>
  What a listener of the collection observes: the notification and the state of the world
  at the moment \<^verbatim>\<open>emit\<close> runs it.
\<close>

type_synonym obs = "event \<times> world"

definition toolbarHeight :: int where
  "toolbarHeight = 62"

definition padding :: int where
  "padding = 4"

definition upd_tab :: "nat \<Rightarrow> (tab \<Rightarrow> tab) \<Rightarrow> world \<Rightarrow> world" where
  "upd_tab r f w = w\<lparr>heap := (heap w)(r := f (heap w r))\<rparr>"

definition upd_surface :: "nat \<Rightarrow> (view_surface \<Rightarrow> view_surface) \<Rightarrow> world \<Rightarrow> world" where
  "upd_surface r f w = upd_tab r (\<lambda>t. t\<lparr>surface := f (surface t)\<rparr>) w"

definition upd_win :: "(window \<Rightarrow> window) \<Rightarrow> world \<Rightarrow> world" where
  "upd_win f w = w\<lparr>win := f (win w)\<rparr>"

text \<open>
  \<^verbatim>\<open>EventEmitter.off\<close> removes at most one instance of the listener, the one added
  last; \<^verbatim>\<open>EventEmitter.on\<close> appends without looking for duplicates.
\<close>

definition remove_last :: "nat \<Rightarrow> nat list \<Rightarrow> nat list" where
  "remove_last r ls = rev (remove1 r (rev ls))"

definition window_on_resize :: "nat \<Rightarrow> world \<Rightarrow> world" where
  "window_on_resize r w = upd_win (\<lambda>b. b\<lparr>resize_listeners := resize_listeners b @ [r]\<rparr>) w"

definition window_off_resize :: "nat \<Rightarrow> world \<Rightarrow> world" where
  "window_off_resize r w =
     upd_win (\<lambda>b. b\<lparr>resize_listeners := remove_last r (resize_listeners b)\<rparr>) w"

text \<open>
  Modelled from the spec: the host's \<^verbatim>\<open>WebContentsView\<close> constructor is not in the
  source. The spec says that the identifier is assigned by the host at creation and is
  unique (here: the counter \<open>next_wc_id\<close>), and that a surface just attached is not yet
  visible. \<^verbatim>\<open>Tabs.create\<close> shows a new Tab before anything can observe it, so nothing
  below depends on the visibility a new surface starts with.
\<close>

definition new_surface :: view_surface where
  "new_surface = \<lparr>visible = False, bounds = None, borderRadius = None, setBounds_calls = 0\<rparr>"

definition new_webContents :: web_contents where
  "new_webContents = \<lparr>wc_isDestroyed = False, wc_devToolsOpened = False, wc_destroyed_emits = 0\<rparr>"

subsection \<open>class Tab\<close>

text \<open>
  \<^verbatim>\<open>constructor(parentWindow)\<close>: a new view, \<^verbatim>\<open>this.id\<close>, \<^verbatim>\<open>this.window\<close>,
  \<^verbatim>\<open>this.webContents\<close>, then \<^verbatim>\<open>this.window.contentView.addChildView\<close>, which throws a
  TypeError when \<^verbatim>\<open>parentWindow\<close> is \<^verbatim>\<open>undefined\<close>.
\<close>

definition Tab_new :: "bool \<Rightarrow> world \<Rightarrow> nat res \<times> world" where
  "Tab_new parentWindow w =
     (let r = next_ref w;
          t = \<lparr>tab_id = next_wc_id w, destroyed = False, tab_window = parentWindow,
               tab_view = True, tab_webContents = True,
               surface = new_surface, wc = new_webContents\<rparr>;
          w1 = w\<lparr>heap := (heap w)(r := t), next_ref := Suc r, next_wc_id := Suc (next_wc_id w)\<rparr>
      in if \<not> parentWindow then (Throw TypeError, w1)
         else (Return r, upd_win (\<lambda>b. b\<lparr>childViews := childViews b @ [r]\<rparr>) w1))"

definition Tab_invalidateLayout :: "nat \<Rightarrow> world \<Rightarrow> unit res \<times> world" where
  "Tab_invalidateLayout r w =
     (if \<not> tab_window (heap w r) then (Throw TypeError, w)
      else let (width, height) = win_size (win w) in
        if \<not> tab_view (heap w r) then (Throw TypeError, w)
        else (Return (),
              upd_surface r (\<lambda>s. s\<lparr>
                bounds := Some \<lparr>rect_x = padding,
                                rect_y = toolbarHeight + padding,
                                rect_width = width - (padding * 2),
                                rect_height = height - toolbarHeight - (padding * 2)\<rparr>,
                borderRadius := Some 8,
                setBounds_calls := Suc (setBounds_calls s)\<rparr>) w))"

definition Tab_startResizeListener :: "nat \<Rightarrow> world \<Rightarrow> unit res \<times> world" where
  "Tab_startResizeListener r w =
     (if \<not> tab_window (heap w r) then (Throw TypeError, w)
      else (Return (), window_on_resize r w))"

definition Tab_stopResizeListener :: "nat \<Rightarrow> world \<Rightarrow> unit res \<times> world" where
  "Tab_stopResizeListener r w =
     (if \<not> tab_window (heap w r) then (Throw TypeError, w)
      else (Return (), window_off_resize r w))"

definition view_setVisible :: "nat \<Rightarrow> bool \<Rightarrow> world \<Rightarrow> unit res \<times> world" where
  "view_setVisible r b w =
     (if \<not> tab_view (heap w r) then (Throw TypeError, w)
      else (Return (), upd_surface r (\<lambda>s. s\<lparr>visible := b\<rparr>) w))"

definition Tab_show :: "nat \<Rightarrow> world \<Rightarrow> unit res \<times> world" where
  "Tab_show r w =
     (case Tab_invalidateLayout r w of
        (Throw e, w1) \<Rightarrow> (Throw e, w1)
      | (Return _, w1) \<Rightarrow>
          (case Tab_startResizeListener r w1 of
             (Throw e, w2) \<Rightarrow> (Throw e, w2)
           | (Return _, w2) \<Rightarrow> view_setVisible r True w2))"

definition Tab_hide :: "nat \<Rightarrow> world \<Rightarrow> unit res \<times> world" where
  "Tab_hide r w =
     (case Tab_stopResizeListener r w of
        (Throw e, w1) \<Rightarrow> (Throw e, w1)
      | (Return _, w1) \<Rightarrow> view_setVisible r False w1)"

text \<open>
  The part of \<^verbatim>\<open>Tab.destroy\<close> on the webContents: close the dev tools when open, emit
  \<^verbatim>\<open>'destroyed'\<close>, destroy; nothing when the webContents is destroyed already.
\<close>

definition release_webContents :: "web_contents \<Rightarrow> web_contents" where
  "release_webContents c =
     (if \<not> wc_isDestroyed c
      then c\<lparr>wc_devToolsOpened := False,
             wc_destroyed_emits := Suc (wc_destroyed_emits c),
             wc_isDestroyed := True\<rparr>
      else c)"

definition Tab_destroy :: "nat \<Rightarrow> world \<Rightarrow> unit res \<times> world" where
  "Tab_destroy r w =
     (if destroyed (heap w r) then (Return (), w)
      else let w1 = upd_tab r (\<lambda>t. t\<lparr>destroyed := True\<rparr>) w in
        (case Tab_hide r w1 of
           (Throw e, w2) \<Rightarrow> (Throw e, w2)
         | (Return _, w2) \<Rightarrow>
             if \<not> tab_window (heap w2 r) then (Throw TypeError, w2)
             else let w3 = upd_win (\<lambda>b. b\<lparr>childViews := remove1 r (childViews b)\<rparr>) w2;
                      w4 = upd_tab r (\<lambda>t. t\<lparr>tab_window := False\<rparr>) w3
                  in if \<not> tab_webContents (heap w4 r) then (Throw TypeError, w4)
                     else let w5 = upd_tab r (\<lambda>t. t\<lparr>wc := release_webContents (wc t)\<rparr>) w4
                          in (Return (),
                              upd_tab r (\<lambda>t. t\<lparr>tab_webContents := False, tab_view := False\<rparr>) w5)))"

text \<open>
  The window emits \<^verbatim>\<open>'resize'\<close> after its size changed: the listeners registered at that
  moment run in the order they were added; a listener that throws ends the emit.
\<close>

fun run_listeners :: "nat list \<Rightarrow> world \<Rightarrow> unit res \<times> world" where
  "run_listeners [] w = (Return (), w)"
| "run_listeners (r # rs) w =
     (case Tab_invalidateLayout r w of
        (Throw e, w1) \<Rightarrow> (Throw e, w1)
      | (Return _, w1) \<Rightarrow> run_listeners rs w1)"

definition window_resize :: "int \<times> int \<Rightarrow> world \<Rightarrow> unit res \<times> world" where
  "window_resize sz w =
     (let w1 = upd_win (\<lambda>b. b\<lparr>win_size := sz\<rparr>) w
      in run_listeners (resize_listeners (win w1)) w1)"

subsection \<open>class Tabs\<close>

text \<open>
  \<^verbatim>\<open>tabList = []\<close>, \<^verbatim>\<open>selected = null\<close>, \<^verbatim>\<open>this.window = browserWindow\<close>. The store
  holds no Tab yet; \<open>blank_tab\<close> fills the cells that no reference names.
\<close>

definition blank_tab :: tab where
  "blank_tab = \<lparr>tab_id = 0, destroyed = False, tab_window = False, tab_view = False,
                tab_webContents = False, surface = new_surface, wc = new_webContents\<rparr>"

definition Tabs_new :: "int \<times> int \<Rightarrow> world" where
  "Tabs_new sz =
     \<lparr>heap = (\<lambda>_. blank_tab), next_ref = 0, next_wc_id = 1,
      win = \<lparr>win_size = sz, childViews = [], resize_listeners = [], win_destroy_calls = 0\<rparr>,
      tabList = [], selected = None, tabs_window = True\<rparr>"

text \<open>\<^verbatim>\<open>this.tabList.forEach((tab) => tab.destroy())\<close>\<close>

fun destroy_each :: "nat list \<Rightarrow> world \<Rightarrow> unit res \<times> world" where
  "destroy_each [] w = (Return (), w)"
| "destroy_each (r # rs) w =
     (case Tab_destroy r w of
        (Throw e, w1) \<Rightarrow> (Throw e, w1)
      | (Return _, w1) \<Rightarrow> destroy_each rs w1)"

definition Tabs_destroy :: "world \<Rightarrow> unit res \<times> world" where
  "Tabs_destroy w =
     (case destroy_each (tabList w) w of
        (Throw e, w1) \<Rightarrow> (Throw e, w1)
      | (Return _, w1) \<Rightarrow>
          (let w2 = w1\<lparr>tabList := [], selected := None\<rparr>
           in if tabs_window w2
              then (Return (),
                    (upd_win (\<lambda>b. b\<lparr>win_destroy_calls := Suc (win_destroy_calls b)\<rparr>) w2)
                      \<lparr>tabs_window := False\<rparr>)
              else (Return (), w2)))"

text \<open>\<^verbatim>\<open>this.tabList.find((tab) => tab.id === tabId)\<close>\<close>

definition Tabs_get :: "world \<Rightarrow> nat \<Rightarrow> nat option" where
  "Tabs_get w tabId = find (\<lambda>r. tab_id (heap w r) = tabId) (tabList w)"

definition Tabs_select :: "nat \<Rightarrow> world \<Rightarrow> unit res \<times> world \<times> obs list" where
  "Tabs_select tabId w =
     (case Tabs_get w tabId of
        None \<Rightarrow> (Return (), w, [])
      | Some t \<Rightarrow>
          (case (case selected w of None \<Rightarrow> (Return (), w) | Some s \<Rightarrow> Tab_hide s w) of
             (Throw e, w1) \<Rightarrow> (Throw e, w1, [])
           | (Return _, w1) \<Rightarrow>
               (case Tab_show t w1 of
                  (Throw e, w2) \<Rightarrow> (Throw e, w2, [])
                | (Return _, w2) \<Rightarrow>
                    (let w3 = w2\<lparr>selected := Some t\<rparr>
                     in (Return (), w3, [(TabSelected t, w3)])))))"

definition Tabs_create :: "world \<Rightarrow> nat res \<times> world \<times> obs list" where
  "Tabs_create w =
     (case Tab_new (tabs_window w) w of
        (Throw e, w1) \<Rightarrow> (Throw e, w1, [])
      | (Return t, w1) \<Rightarrow>
          (let w2 = w1\<lparr>tabList := tabList w1 @ [t]\<rparr>;
               w3 = (if selected w2 = None then w2\<lparr>selected := Some t\<rparr> else w2)
           in case Tab_show t w3 of
                (Throw e, w4) \<Rightarrow> (Throw e, w4, [])
              | (Return _, w4) \<Rightarrow>
                  (case Tabs_select (tab_id (heap w4 t)) w4 of
                     (Throw e, w5, evs) \<Rightarrow> (Throw e, w5, (TabCreated t, w4) # evs)
                   | (Return _, w5, evs) \<Rightarrow> (Return t, w5, (TabCreated t, w4) # evs))))"

text \<open>
  \<^verbatim>\<open>findIndex\<close> answers \<open>-1\<close> when no element matches; an index outside the array reads
  \<^verbatim>\<open>undefined\<close>, also the index \<open>-1\<close>; \<^verbatim>\<open>a || b\<close> is \<open>b\<close> when \<open>a\<close> is \<^verbatim>\<open>undefined\<close>.
\<close>

fun findIndex :: "('a \<Rightarrow> bool) \<Rightarrow> 'a list \<Rightarrow> int" where
  "findIndex P [] = -1"
| "findIndex P (x # xs) =
     (if P x then 0 else (let i = findIndex P xs in if i < 0 then -1 else i + 1))"

definition js_nth :: "'a list \<Rightarrow> int \<Rightarrow> 'a option" where
  "js_nth xs i = (if 0 \<le> i \<and> i < int (length xs) then Some (xs ! nat i) else None)"

definition splice1 :: "int \<Rightarrow> 'a list \<Rightarrow> 'a list" where
  "splice1 i xs = take (nat i) xs @ drop (Suc (nat i)) xs"

definition js_or :: "'a option \<Rightarrow> 'a option \<Rightarrow> 'a option" where
  "js_or a b = (case a of Some v \<Rightarrow> Some v | None \<Rightarrow> b)"

definition Tabs_remove :: "nat \<Rightarrow> world \<Rightarrow> unit res \<times> world \<times> obs list" where
  "Tabs_remove tabId w =
     (let tabIndex = findIndex (\<lambda>r. tab_id (heap w r) = tabId) (tabList w)
      in if tabIndex < 0 then (Throw (NotFound tabId), w, [])
         else
           (let t = tabList w ! nat tabIndex;
                w1 = w\<lparr>tabList := splice1 tabIndex (tabList w)\<rparr>
            in case Tab_destroy t w1 of
                 (Throw e, w2) \<Rightarrow> (Throw e, w2, [])
               | (Return _, w2) \<Rightarrow>
                   (case (if selected w2 = Some t
                          then (let w3 = w2\<lparr>selected := None\<rparr>
                                in case js_or (js_nth (tabList w3) tabIndex)
                                              (js_nth (tabList w3) (tabIndex - 1)) of
                                     None \<Rightarrow> (Return (), w3, [])
                                   | Some nextTab \<Rightarrow> Tabs_select (tab_id (heap w3 nextTab)) w3)
                          else (Return (), w2, [])) of
                      (Throw e, w4, evs) \<Rightarrow> (Throw e, w4, evs)
                    | (Return _, w4, evs) \<Rightarrow>
                        (let evs' = evs @ [(TabDestroyed t, w4)]
                         in if length (tabList w4) = 0
                            then (case Tabs_destroy w4 of (res, w5) \<Rightarrow> (res, w5, evs'))
                            else (Return (), w4, evs')))))"

subsection \<open>Sequences of calls\<close>

text \<open>
  A caller issues \<^verbatim>\<open>create\<close>, \<^verbatim>\<open>select\<close> and \<^verbatim>\<open>remove\<close> in any order; a call that throws
  leaves the world as it is at the throw and the caller goes on. The listeners' observations
  are collected in the order of the notifications.
\<close>

datatype op = Create | Select nat | Remove nat

fun apply_op :: "op \<Rightarrow> world \<Rightarrow> world \<times> obs list" where
  "apply_op Create w = snd (Tabs_create w)"
| "apply_op (Select i) w = snd (Tabs_select i w)"
| "apply_op (Remove i) w = snd (Tabs_remove i w)"

fun run_ops :: "op list \<Rightarrow> world \<Rightarrow> world \<times> obs list" where
  "run_ops [] w = (w, [])"
| "run_ops (c # cs) w =
     (case apply_op c w of
        (w1, evs1) \<Rightarrow> (case run_ops cs w1 of (w2, evs2) \<Rightarrow> (w2, evs1 @ evs2)))"

text \<open>
  A holder of a Tab (\<^verbatim>\<open>create()\<close> returns it) calls \<^verbatim>\<open>show\<close>, \<^verbatim>\<open>hide\<close> and
  \<^verbatim>\<open>destroy\<close> on it in any order, going on after a call that throws.
\<close>

datatype tab_call = Show | Hide | Destroy

fun apply_tab_call :: "nat \<Rightarrow> tab_call \<Rightarrow> world \<Rightarrow> unit res \<times> world" where
  "apply_tab_call r Show w = Tab_show r w"
| "apply_tab_call r Hide w = Tab_hide r w"
| "apply_tab_call r Destroy w = Tab_destroy r w"

fun run_tab_calls :: "nat \<Rightarrow> tab_call list \<Rightarrow> world \<Rightarrow> world" where
  "run_tab_calls r [] w = w"
| "run_tab_calls r (c # cs) w = run_tab_calls r cs (snd (apply_tab_call r c w))"

subsection \<open>Well-formed collections and what a listener can check\<close>

text \<open>
  A Tab that was constructed on a window and not destroyed: all of its fields hold objects.
\<close>

definition live :: "tab \<Rightarrow> bool" where
  "live t \<longleftrightarrow> \<not> destroyed t \<and> tab_window t \<and> tab_view t \<and> tab_webContents t"

text \<open>
  The shape of a collection that the three calls maintain: no Tab twice in the sequence,
  every Tab of the sequence live and allocated, the host's ids below its counter and
  pairwise different, and a window as long as there are tabs.
\<close>

definition tabs_struct :: "world \<Rightarrow> bool" where
  "tabs_struct w \<longleftrightarrow>
     distinct (tabList w) \<and>
     (\<forall>r\<in>set (tabList w).
        live (heap w r) \<and> r < next_ref w \<and> tab_id (heap w r) < next_wc_id w) \<and>
     inj_on (\<lambda>r. tab_id (heap w r)) (set (tabList w)) \<and>
     (tabList w \<noteq> [] \<longrightarrow> tabs_window w)"

text \<open>
  Between calls, moreover, the selection is a Tab of the sequence (and is unset exactly
  when the sequence is empty), and a Tab of the sequence is visible exactly when it is
  the selected one.
\<close>

definition tabs_inv :: "world \<Rightarrow> bool" where
  "tabs_inv w \<longleftrightarrow>
     tabs_struct w \<and>
     (case selected w of None \<Rightarrow> tabList w = [] | Some s \<Rightarrow> s \<in> set (tabList w)) \<and>
     (\<forall>r\<in>set (tabList w). visible (surface (heap w r)) \<longleftrightarrow> selected w = Some r)"

text \<open>
  The state at a \<^verbatim>\<open>tab-created\<close> notification for the Tab \<open>t\<close>: as between calls, but
  \<open>t\<close> has been shown already, whether it is the selection or not.
\<close>

definition created_ok :: "nat \<Rightarrow> world \<Rightarrow> bool" where
  "created_ok t w \<longleftrightarrow>
     tabs_struct w \<and> t \<in> set (tabList w) \<and> visible (surface (heap w t)) \<and>
     (case selected w of None \<Rightarrow> False | Some s \<Rightarrow> s \<in> set (tabList w)) \<and>
     (\<forall>r\<in>set (tabList w). r \<noteq> t \<longrightarrow> (visible (surface (heap w r)) \<longleftrightarrow> selected w = Some r))"

fun obs_ok :: "obs \<Rightarrow> bool" where
  "obs_ok (TabCreated t, s) = created_ok t s"
| "obs_ok (TabSelected t, s) = tabs_inv s"
| "obs_ok (TabDestroyed t, s) = tabs_inv s"

text \<open>A call on one Tab \<open>r\<close> leaves the other Tabs, the ids and the collection alone.\<close>

definition only_tab :: "nat \<Rightarrow> world \<Rightarrow> world \<Rightarrow> bool" where
  "only_tab r w w' \<longleftrightarrow>
     (\<forall>r'. r' \<noteq> r \<longrightarrow> heap w' r' = heap w r') \<and>
     tab_id (heap w' r) = tab_id (heap w r) \<and>
     tabList w' = tabList w \<and> selected w' = selected w \<and>
     tabs_window w' = tabs_window w \<and> next_ref w' = next_ref w \<and>
     next_wc_id w' = next_wc_id w \<and>
     win_size (win w') = win_size (win w) \<and>
     win_destroy_calls (win w') = win_destroy_calls (win w)"

text \<open>The single-selection property, as a listener or a caller can check it on a state.\<close>

definition visible_tabs :: "world \<Rightarrow> nat list" where
  "visible_tabs w = filter (\<lambda>r. visible (surface (heap w r))) (tabList w)"

definition at_most_one_visible :: "world \<Rightarrow> bool" where
  "at_most_one_visible w \<longleftrightarrow> length (visible_tabs w) \<le> 1"

definition one_selected :: "world \<Rightarrow> bool" where
  "one_selected w \<longleftrightarrow>
     (case selected w of
        None \<Rightarrow> False
      | Some s \<Rightarrow>
          length (filter (\<lambda>r. tab_id (heap w r) = tab_id (heap w s)) (tabList w)) = 1)"

definition single_selection :: "world \<Rightarrow> bool" where
  "single_selection w \<longleftrightarrow>
     at_most_one_visible w \<and> (tabList w \<noteq> [] \<longrightarrow> one_selected w)"

text \<open>
  What holds at an observation. At \<^verbatim>\<open>tab-created\<close> the new Tab has been shown and the
  selection has not moved yet: one Tab has the id of the selection, and a visible Tab
  is the new one or the selected one.
\<close>

fun obs_single :: "obs \<Rightarrow> bool" where
  "obs_single (TabCreated t, s) =
     (one_selected s \<and> (\<forall>r\<in>set (visible_tabs s). r = t \<or> selected s = Some r))"
| "obs_single (TabSelected t, s) = single_selection s"
| "obs_single (TabDestroyed t, s) = single_selection s"

text \<open>
  Collections for the examples: a window of 800 by 600 on which \<^verbatim>\<open>create()\<close> ran once,
  twice and three times. The Tabs are the references 0, 1, 2 with the ids 1, 2, 3; the Tab
  created last is the selected one.
\<close>

definition world_one :: world where
  "world_one = fst (snd (Tabs_create (Tabs_new (800, 600))))"

definition world_two :: world where
  "world_two = fst (snd (Tabs_create world_one))"

definition world_three :: world where
  "world_three = fst (snd (Tabs_create world_two))"

text \<open>Three tabs with the middle one selected: \<^verbatim>\<open>select(2)\<close> after three creations.\<close>

definition world_three_mid :: world where
  "world_three_mid = fst (snd (Tabs_select 2 world_three))"

text \<open>The first Tab of \<open>world_one\<close> after its \<^verbatim>\<open>destroy()\<close>.\<close>

definition world_one_destroyed :: world where
  "world_one_destroyed = snd (Tab_destroy 0 world_one)"

section \<open>Properties\<close>

subsection \<open>The calls on one Tab\<close>

lemmas upd_defs =
  upd_tab_def upd_surface_def upd_win_def window_on_resize_def window_off_resize_def

lemma Tab_hide_live:
  assumes "live (heap w r)"
  shows "\<exists>w'. Tab_hide r w = (Return (), w') \<and> only_tab r w w' \<and>
           live (heap w' r) \<and> \<not> visible (surface (heap w' r))"
  using assms
  by (simp add: Tab_hide_def Tab_stopResizeListener_def view_setVisible_def upd_defs
      only_tab_def live_def)

lemma Tab_show_live:
  assumes "live (heap w r)"
  shows "\<exists>w'. Tab_show r w = (Return (), w') \<and> only_tab r w w' \<and>
           live (heap w' r) \<and> visible (surface (heap w' r))"
  using assms
  by (simp add: Tab_show_def Tab_invalidateLayout_def Tab_startResizeListener_def
      view_setVisible_def upd_defs only_tab_def live_def split: prod.splits)

lemma Tab_destroy_live:
  assumes "live (heap w r)"
  shows "\<exists>w'. Tab_destroy r w = (Return (), w') \<and> only_tab r w w' \<and>
           destroyed (heap w' r) \<and> \<not> visible (surface (heap w' r)) \<and>
           \<not> tab_window (heap w' r) \<and> \<not> tab_view (heap w' r) \<and>
           \<not> tab_webContents (heap w' r) \<and> wc_isDestroyed (wc (heap w' r))"
  using assms
  by (simp add: Tab_destroy_def Tab_hide_def Tab_stopResizeListener_def view_setVisible_def
      upd_defs only_tab_def live_def Let_def release_webContents_def)

text \<open>What the calls on a live Tab do to the window and to the webContents.\<close>

lemma count_remove_last:
  "count_list (remove_last r ls) x = count_list ls x - (if r = x then 1 else 0)"
  by (simp add: remove_last_def)

lemma Tab_hide_win:
  assumes "live (heap w r)"
  shows "childViews (win (snd (Tab_hide r w))) = childViews (win w)"
    and "resize_listeners (win (snd (Tab_hide r w))) = remove_last r (resize_listeners (win w))"
  using assms
  by (simp_all add: Tab_hide_def Tab_stopResizeListener_def view_setVisible_def upd_defs
      live_def)

lemma Tab_show_win:
  assumes "live (heap w r)"
  shows "childViews (win (snd (Tab_show r w))) = childViews (win w)"
    and "resize_listeners (win (snd (Tab_show r w))) = resize_listeners (win w) @ [r]"
  using assms
  by (simp_all add: Tab_show_def Tab_invalidateLayout_def Tab_startResizeListener_def
      view_setVisible_def upd_defs live_def split: prod.splits)

lemma Tab_destroy_win:
  assumes "live (heap w r)"
  shows "childViews (win (snd (Tab_destroy r w))) = remove1 r (childViews (win w))"
    and "resize_listeners (win (snd (Tab_destroy r w))) =
           remove_last r (resize_listeners (win w))"
    and "wc (heap (snd (Tab_destroy r w)) r) = release_webContents (wc (heap w r))"
  using assms
  by (simp_all add: Tab_destroy_def Tab_hide_def Tab_stopResizeListener_def
      view_setVisible_def upd_defs live_def Let_def)

lemma only_tab_struct:
  assumes "tabs_struct w" "only_tab r w w'" "r \<in> set (tabList w) \<longrightarrow> live (heap w' r)"
  shows "tabs_struct w'"
proof -
  have h: "\<And>x. x \<in> set (tabList w) \<Longrightarrow> tab_id (heap w' x) = tab_id (heap w x)"
    using assms(2) by (metis only_tab_def)
  have l: "\<And>x. x \<in> set (tabList w) \<Longrightarrow> live (heap w' x)"
    using assms by (metis only_tab_def tabs_struct_def)
  have "inj_on (\<lambda>r. tab_id (heap w' r)) (set (tabList w))"
    using assms(1) h by (simp add: tabs_struct_def inj_on_def)
  then show ?thesis
    using assms(1,2) h l by (simp add: tabs_struct_def only_tab_def)
qed

subsection \<open>Lookup by id\<close>

lemma find_inj:
  "inj_on f (set xs) \<Longrightarrow> t \<in> set xs \<Longrightarrow> find (\<lambda>r. f r = f t) xs = Some t"
  by (induction xs) (auto simp: inj_on_def)

lemma Tabs_get_present:
  assumes "tabs_struct w" "t \<in> set (tabList w)"
  shows "Tabs_get w (tab_id (heap w t)) = Some t"
  using assms find_inj[of "\<lambda>r. tab_id (heap w r)" "tabList w" t]
  by (simp add: Tabs_get_def tabs_struct_def)

lemma findIndex_ge: "- 1 \<le> findIndex P xs"
  by (induction xs) (auto simp: Let_def)

lemma findIndex_neg: "findIndex P xs < 0 \<longleftrightarrow> (\<forall>x\<in>set xs. \<not> P x)"
  using findIndex_ge[of P] by (induction xs) (auto simp: Let_def)

lemma findIndex_inj:
  "distinct xs \<Longrightarrow> inj_on f (set xs) \<Longrightarrow> i < length xs \<Longrightarrow>
   findIndex (\<lambda>r. f r = f (xs ! i)) xs = int i"
proof (induction xs arbitrary: i)
  case Nil
  then show ?case by simp
next
  case (Cons x xs)
  show ?case
  proof (cases i)
    case 0
    then show ?thesis by simp
  next
    case (Suc j)
    with Cons.prems have j: "j < length xs" and ne: "f x \<noteq> f (xs ! j)"
      by (auto simp: inj_on_def)
    from Cons.prems have "distinct xs" "inj_on f (set xs)" by (auto simp: inj_on_def)
    with Cons.IH j have "findIndex (\<lambda>r. f r = f (xs ! j)) xs = int j" by blast
    with Suc ne show ?thesis by (simp add: Let_def)
  qed
qed

subsection \<open>Selecting and creating on a well-formed collection\<close>

lemma select_establishes:
  assumes st: "tabs_struct w" and t: "t \<in> set (tabList w)"
    and sel: "case selected w of None \<Rightarrow> True | Some s \<Rightarrow> s \<in> set (tabList w)"
    and vis: "\<forall>r\<in>set (tabList w). r \<noteq> t \<longrightarrow>
                (visible (surface (heap w r)) \<longleftrightarrow> selected w = Some r)"
  shows "\<exists>w'. Tabs_select (tab_id (heap w t)) w = (Return (), w', [(TabSelected t, w')]) \<and>
           tabs_inv w' \<and> selected w' = Some t \<and> tabList w' = tabList w \<and>
           tabs_window w' = tabs_window w \<and> next_ref w' = next_ref w \<and>
           next_wc_id w' = next_wc_id w \<and>
           win_destroy_calls (win w') = win_destroy_calls (win w) \<and>
           (\<forall>r. r \<noteq> t \<longrightarrow> selected w \<noteq> Some r \<longrightarrow> heap w' r = heap w r)"
proof -
  have g: "Tabs_get w (tab_id (heap w t)) = Some t"
    using st t by (rule Tabs_get_present)
  obtain w1 where
    w1: "(case selected w of None \<Rightarrow> (Return (), w) | Some s \<Rightarrow> Tab_hide s w) = (Return (), w1)"
    and s1: "tabs_struct w1"
    and e1: "tabList w1 = tabList w" "selected w1 = selected w"
      "tabs_window w1 = tabs_window w" "next_ref w1 = next_ref w"
      "next_wc_id w1 = next_wc_id w"
      "win_destroy_calls (win w1) = win_destroy_calls (win w)"
    and v1: "\<forall>r\<in>set (tabList w). r \<noteq> t \<longrightarrow> \<not> visible (surface (heap w1 r))"
    and f1: "\<forall>r. selected w \<noteq> Some r \<longrightarrow> heap w1 r = heap w r"
  proof (cases "selected w")
    case None
    with st vis show ?thesis by (intro that[of w]) auto
  next
    case (Some s)
    with sel have sin: "s \<in> set (tabList w)" by simp
    with st have "live (heap w s)" by (simp add: tabs_struct_def)
    from Tab_hide_live[OF this] obtain w1 where
      h: "Tab_hide s w = (Return (), w1)" "only_tab s w w1" "live (heap w1 s)"
        "\<not> visible (surface (heap w1 s))" by blast
    have "tabs_struct w1" using st h(2) h(3) by (rule only_tab_struct[rule_format])
    moreover have "\<forall>r\<in>set (tabList w). r \<noteq> t \<longrightarrow> \<not> visible (surface (heap w1 r))"
    proof (intro ballI impI)
      fix r assume r: "r \<in> set (tabList w)" "r \<noteq> t"
      show "\<not> visible (surface (heap w1 r))"
      proof (cases "r = s")
        case True then show ?thesis using h(4) by simp
      next
        case False
        then have "heap w1 r = heap w r" using h(2) by (simp add: only_tab_def)
        then show ?thesis using vis r False Some by simp
      qed
    qed
    moreover have "\<forall>r. selected w \<noteq> Some r \<longrightarrow> heap w1 r = heap w r"
      using h(2) Some by (simp add: only_tab_def)
    ultimately show ?thesis using h(1,2) Some
      by (intro that[of w1]) (simp_all add: only_tab_def)
  qed
  from s1 t e1(1) have "live (heap w1 t)" by (simp add: tabs_struct_def)
  from Tab_show_live[OF this] obtain w2 where
    h2: "Tab_show t w1 = (Return (), w2)" "only_tab t w1 w2" "live (heap w2 t)"
      "visible (surface (heap w2 t))" by blast
  have s2: "tabs_struct w2" using s1 h2(2) h2(3) by (rule only_tab_struct[rule_format])
  define w3 where "w3 = w2\<lparr>selected := Some t\<rparr>"
  have s3: "tabs_struct w3" using s2 by (simp add: w3_def tabs_struct_def)
  have l3: "tabList w3 = tabList w" using h2(2) e1 by (simp add: w3_def only_tab_def)
  have v3: "\<forall>r\<in>set (tabList w3). visible (surface (heap w3 r)) \<longleftrightarrow> selected w3 = Some r"
  proof
    fix r assume r: "r \<in> set (tabList w3)"
    show "visible (surface (heap w3 r)) \<longleftrightarrow> selected w3 = Some r"
    proof (cases "r = t")
      case True then show ?thesis using h2(4) by (simp add: w3_def)
    next
      case False
      then have "heap w3 r = heap w1 r" using h2(2) by (simp add: w3_def only_tab_def)
      then show ?thesis using v1 r l3 False by (auto simp: w3_def)
    qed
  qed
  have i3: "tabs_inv w3" using s3 v3 t l3 by (simp add: tabs_inv_def) (simp add: w3_def)
  have "Tabs_select (tab_id (heap w t)) w = (Return (), w3, [(TabSelected t, w3)])"
    by (simp add: Tabs_select_def g w1 h2(1) w3_def Let_def)
  moreover have "selected w3 = Some t" by (simp add: w3_def)
  moreover have "tabs_window w3 = tabs_window w" "next_ref w3 = next_ref w"
    "next_wc_id w3 = next_wc_id w" "win_destroy_calls (win w3) = win_destroy_calls (win w)"
    using h2(2) e1 by (simp_all add: w3_def only_tab_def)
  moreover have "\<forall>r. r \<noteq> t \<longrightarrow> selected w \<noteq> Some r \<longrightarrow> heap w3 r = heap w r"
    using h2(2) f1 by (simp add: w3_def only_tab_def)
  ultimately show ?thesis using i3 l3 by blast
qed

lemma Tabs_select_win:
  assumes g: "Tabs_get w i = Some t" and lt: "live (heap w t)"
    and ls: "case selected w of None \<Rightarrow> True | Some s \<Rightarrow> live (heap w s)"
  shows "childViews (win (fst (snd (Tabs_select i w)))) = childViews (win w)"
    and "resize_listeners (win (fst (snd (Tabs_select i w)))) =
           (case selected w of
              None \<Rightarrow> resize_listeners (win w)
            | Some s \<Rightarrow> remove_last s (resize_listeners (win w))) @ [t]"
proof -
  obtain w1 where
    w1: "(case selected w of None \<Rightarrow> (Return (), w) | Some s \<Rightarrow> Tab_hide s w) = (Return (), w1)"
    and l1: "live (heap w1 t)"
    and c1: "childViews (win w1) = childViews (win w)"
    and r1: "resize_listeners (win w1) =
               (case selected w of
                  None \<Rightarrow> resize_listeners (win w)
                | Some s \<Rightarrow> remove_last s (resize_listeners (win w)))"
  proof (cases "selected w")
    case None
    with lt show ?thesis by (intro that[of w]) simp_all
  next
    case (Some s)
    with ls have l: "live (heap w s)" by simp
    from Tab_hide_live[OF l] obtain w1 where
      h: "Tab_hide s w = (Return (), w1)" "only_tab s w w1" "live (heap w1 s)" by blast
    have "live (heap w1 t)"
    proof (cases "t = s")
      case True
      with h(3) show ?thesis by simp
    next
      case False
      with h(2) have "heap w1 t = heap w t" by (simp add: only_tab_def)
      with lt show ?thesis by simp
    qed
    moreover have "childViews (win w1) = childViews (win w)"
      "resize_listeners (win w1) = remove_last s (resize_listeners (win w))"
      using Tab_hide_win[OF l] h(1) by simp_all
    ultimately show ?thesis using h(1) Some by (intro that[of w1]) simp_all
  qed
  from Tab_show_live[OF l1] obtain w2 where
    h2: "Tab_show t w1 = (Return (), w2)" by blast
  have c2: "childViews (win w2) = childViews (win w1)"
    "resize_listeners (win w2) = resize_listeners (win w1) @ [t]"
    using Tab_show_win[OF l1] h2 by simp_all
  have "fst (snd (Tabs_select i w)) = w2\<lparr>selected := Some t\<rparr>"
    by (simp add: Tabs_select_def g w1 h2 Let_def)
  then show "childViews (win (fst (snd (Tabs_select i w)))) = childViews (win w)"
    and "resize_listeners (win (fst (snd (Tabs_select i w)))) =
           (case selected w of
              None \<Rightarrow> resize_listeners (win w)
            | Some s \<Rightarrow> remove_last s (resize_listeners (win w))) @ [t]"
    using c1 r1 c2 by simp_all
qed

lemma create_live:
  assumes inv: "tabs_inv w" and win: "tabs_window w"
  shows "\<exists>wm w'. Tabs_create w =
            (Return (next_ref w), w',
             [(TabCreated (next_ref w), wm), (TabSelected (next_ref w), w')]) \<and>
           created_ok (next_ref w) wm \<and> tabList wm = tabList w @ [next_ref w] \<and>
           selected wm = (if selected w = None then Some (next_ref w) else selected w) \<and>
           (\<forall>r\<in>set (tabList w). heap wm r = heap w r) \<and>
           tabs_inv w' \<and> selected w' = Some (next_ref w) \<and>
           tabList w' = tabList w @ [next_ref w] \<and> tabs_window w' \<and>
           win_destroy_calls (win w') = win_destroy_calls (win w) \<and>
           childViews (win w') = childViews (win w) @ [next_ref w]"
proof -
  define r where "r = next_ref w"
  define nt where "nt = \<lparr>tab_id = next_wc_id w, destroyed = False, tab_window = True,
      tab_view = True, tab_webContents = True, surface = new_surface, wc = new_webContents\<rparr>"
  define w1 where "w1 = upd_win (\<lambda>b. b\<lparr>childViews := childViews b @ [r]\<rparr>)
      (w\<lparr>heap := (heap w)(r := nt), next_ref := Suc r, next_wc_id := Suc (next_wc_id w)\<rparr>)"
  define w3 where "w3 = (if selected (w1\<lparr>tabList := tabList w1 @ [r]\<rparr>) = None
      then w1\<lparr>tabList := tabList w1 @ [r], selected := Some r\<rparr>
      else w1\<lparr>tabList := tabList w1 @ [r]\<rparr>)"
  have new: "Tab_new (tabs_window w) w = (Return r, w1)"
    using win by (simp add: Tab_new_def Let_def r_def nt_def w1_def)
  have f: "tabList w3 = tabList w @ [r]" "heap w3 = (heap w)(r := nt)"
    "next_ref w3 = Suc r" "next_wc_id w3 = Suc (next_wc_id w)" "tabs_window w3"
    "selected w3 = (if selected w = None then Some r else selected w)"
    "win_destroy_calls (win w3) = win_destroy_calls (win w)"
    using win by (simp_all add: w3_def w1_def upd_defs)
  from inv have st: "tabs_struct w" by (simp add: tabs_inv_def)
  have old: "\<And>x. x \<in> set (tabList w) \<Longrightarrow> x < r \<and> live (heap w x) \<and> tab_id (heap w x) < next_wc_id w"
    using st by (simp add: tabs_struct_def r_def)
  have fresh: "r \<notin> set (tabList w)" using old by blast
  have hold: "\<And>x. x \<in> set (tabList w) \<Longrightarrow> heap w3 x = heap w x"
    using fresh f(2) by auto
  have hnew: "heap w3 r = nt" using f(2) by simp
  have lnt: "live nt" "tab_id nt = next_wc_id w"
    by (simp_all add: nt_def live_def)
  have inj3: "inj_on (\<lambda>x. tab_id (heap w3 x)) (set (tabList w3))"
    unfolding inj_on_def
  proof (intro ballI impI)
    fix x y assume x: "x \<in> set (tabList w3)" and y: "y \<in> set (tabList w3)"
      and e: "tab_id (heap w3 x) = tab_id (heap w3 y)"
    have ij: "inj_on (\<lambda>x. tab_id (heap w x)) (set (tabList w))"
      using st by (simp add: tabs_struct_def)
    show "x = y"
    proof (cases "x = r")
      case True
      show ?thesis
      proof (cases "y = r")
        case True with \<open>x = r\<close> show ?thesis by simp
      next
        case False
        with y f(1) have "y \<in> set (tabList w)" by simp
        with old[OF this] hold[OF this] e True hnew lnt(2) show ?thesis by simp
      qed
    next
      case False
      with x f(1) have xin: "x \<in> set (tabList w)" by simp
      show ?thesis
      proof (cases "y = r")
        case True
        with old[OF xin] hold[OF xin] e hnew lnt(2) show ?thesis by simp
      next
        case False
        with y f(1) have yin: "y \<in> set (tabList w)" by simp
        with xin e hold ij show ?thesis by (simp add: inj_on_def)
      qed
    qed
  qed
  have s3: "tabs_struct w3"
    unfolding tabs_struct_def
  proof (intro conjI ballI)
    show "distinct (tabList w3)" using st fresh f(1) by (simp add: tabs_struct_def)
    show "inj_on (\<lambda>x. tab_id (heap w3 x)) (set (tabList w3))" by (rule inj3)
    show "tabList w3 \<noteq> [] \<longrightarrow> tabs_window w3" using f(5) by simp
  next
    fix x assume "x \<in> set (tabList w3)"
    then consider "x = r" | "x \<in> set (tabList w)" using f(1) by auto
    then have "live (heap w3 x) \<and> x < next_ref w3 \<and> tab_id (heap w3 x) < next_wc_id w3"
    proof cases
      case 1 then show ?thesis using hnew lnt f(3,4) by simp
    next
      case 2 then show ?thesis using old[OF 2] hold[OF 2] f(3,4) by simp
    qed
    then show "live (heap w3 x)" "x < next_ref w3" "tab_id (heap w3 x) < next_wc_id w3"
      by simp_all
  qed
  have rin: "r \<in> set (tabList w3)" using f(1) by simp
  then have "live (heap w3 r)" using s3 by (simp add: tabs_struct_def)
  from Tab_show_live[OF this] obtain w4 where
    h4: "Tab_show r w3 = (Return (), w4)" "only_tab r w3 w4" "live (heap w4 r)"
      "visible (surface (heap w4 r))" by blast
  have s4: "tabs_struct w4" using s3 h4(2) h4(3) by (rule only_tab_struct[rule_format])
  have l4: "tabList w4 = tabList w @ [r]" using h4(2) f(1) by (simp add: only_tab_def)
  have sel4: "selected w4 = (if selected w = None then Some r else selected w)"
    using h4(2) f(6) by (simp add: only_tab_def)
  have selin: "case selected w4 of None \<Rightarrow> False | Some s \<Rightarrow> s \<in> set (tabList w4)"
    using inv sel4 l4 by (auto simp: tabs_inv_def split: option.splits)
  have h4old: "\<And>x. x \<in> set (tabList w) \<Longrightarrow> heap w4 x = heap w x"
  proof -
    fix x assume x: "x \<in> set (tabList w)"
    with fresh have "x \<noteq> r" by blast
    with h4(2) have "heap w4 x = heap w3 x" by (simp add: only_tab_def)
    with hold[OF x] show "heap w4 x = heap w x" by simp
  qed
  have vis4: "\<forall>x\<in>set (tabList w4). x \<noteq> r \<longrightarrow>
                (visible (surface (heap w4 x)) \<longleftrightarrow> selected w4 = Some x)"
  proof (intro ballI impI)
    fix x assume "x \<in> set (tabList w4)" "x \<noteq> r"
    then have xin: "x \<in> set (tabList w)" using l4 by simp
    have "visible (surface (heap w x)) \<longleftrightarrow> selected w = Some x"
      using inv xin by (simp add: tabs_inv_def)
    moreover obtain s0 where "selected w = Some s0"
      using inv xin by (cases "selected w") (auto simp: tabs_inv_def)
    ultimately show "visible (surface (heap w4 x)) \<longleftrightarrow> selected w4 = Some x"
      using h4old[OF xin] sel4 by simp
  qed
  have c4: "created_ok r w4"
    using s4 l4 h4(4) selin vis4 by (simp add: created_ok_def)
  have rin4: "r \<in> set (tabList w4)" using l4 by simp
  have sel4': "case selected w4 of None \<Rightarrow> True | Some s \<Rightarrow> s \<in> set (tabList w4)"
    using selin by (simp split: option.splits)
  from select_establishes[OF s4 rin4 sel4' vis4] obtain w5 where
    h5: "Tabs_select (tab_id (heap w4 r)) w4 = (Return (), w5, [(TabSelected r, w5)])"
      "tabs_inv w5" "selected w5 = Some r" "tabList w5 = tabList w4"
      "tabs_window w5 = tabs_window w4"
      "win_destroy_calls (win w5) = win_destroy_calls (win w4)" by blast
  have cv3: "childViews (win w3) = childViews (win w) @ [r]"
    by (simp add: w3_def w1_def upd_defs)
  have cv4: "childViews (win w4) = childViews (win w3)"
    using Tab_show_win(1)[OF \<open>live (heap w3 r)\<close>] h4(1) by simp
  have sl4: "case selected w4 of None \<Rightarrow> True | Some s \<Rightarrow> live (heap w4 s)"
    using selin s4 by (cases "selected w4") (simp_all add: tabs_struct_def)
  have cv5: "childViews (win w5) = childViews (win w4)"
    using Tabs_select_win(1)[OF Tabs_get_present[OF s4 rin4] h4(3) sl4] h5(1) by simp
  have "Tabs_create w = (Return r, w5, [(TabCreated r, w4), (TabSelected r, w5)])"
    using new h4(1) h5(1) by (simp add: Tabs_create_def Let_def w3_def)
  moreover have "tabs_window w5" "win_destroy_calls (win w5) = win_destroy_calls (win w)"
    using h5(5,6) h4(2) f(5,7) by (simp_all add: only_tab_def)
  moreover have "childViews (win w5) = childViews (win w) @ [r]"
    using cv3 cv4 cv5 by simp
  ultimately show ?thesis
    using c4 l4 sel4 h4old h5(2,3,4) unfolding r_def
    by (intro exI[of _ w4] exI[of _ w5]) simp
qed

lemma create_dead:
  assumes inv: "tabs_inv w" and win: "\<not> tabs_window w"
  shows "\<exists>w'. Tabs_create w = (Throw TypeError, w', []) \<and> tabs_inv w' \<and>
           tabList w' = [] \<and> selected w' = None \<and> \<not> tabs_window w' \<and>
           win w' = win w"
proof -
  from inv win have e: "tabList w = []" "selected w = None"
    by (auto simp: tabs_inv_def tabs_struct_def split: option.splits)
  then show ?thesis using win
    by (simp add: Tabs_create_def Tab_new_def Let_def tabs_inv_def tabs_struct_def)
qed

subsection \<open>Removing from a well-formed collection\<close>

lemma splice_facts:
  assumes "distinct xs" "i < length xs"
  shows "distinct (take i xs @ drop (Suc i) xs)"
    and "set (take i xs @ drop (Suc i) xs) = set xs - {xs ! i}"
    and "length (take i xs @ drop (Suc i) xs) = length xs - 1"
proof -
  define a where "a = take i xs"
  define b where "b = drop (Suc i) xs"
  have xs: "xs = a @ xs ! i # b"
    using assms(2) by (simp add: a_def b_def id_take_nth_drop)
  have d: "distinct (a @ xs ! i # b)" using assms(1) xs by simp
  then show "distinct (take i xs @ drop (Suc i) xs)" by (simp add: a_def b_def)
  have e: "set xs = set (a @ xs ! i # b)" using xs by (rule arg_cong)
  have "set (a @ b) = set (a @ xs ! i # b) - {xs ! i}" using d by auto
  then have "set (a @ b) = set xs - {xs ! i}" using e by simp
  then show "set (take i xs @ drop (Suc i) xs) = set xs - {xs ! i}"
    by (simp add: a_def b_def)
  show "length (take i xs @ drop (Suc i) xs) = length xs - 1"
    using assms(2) by simp
qed

lemma Tabs_destroy_empty:
  assumes "tabList w = []" "tabs_window w"
  shows "\<exists>w'. Tabs_destroy w = (Return (), w') \<and> tabList w' = [] \<and> selected w' = None \<and>
           \<not> tabs_window w' \<and> heap w' = heap w \<and>
           win_destroy_calls (win w') = Suc (win_destroy_calls (win w)) \<and>
           childViews (win w') = childViews (win w)"
  using assms by (simp add: Tabs_destroy_def upd_defs Let_def)

lemma empty_inv:
  assumes "tabList w = []" "selected w = None"
  shows "tabs_inv w"
  using assms by (simp add: tabs_inv_def tabs_struct_def)

text \<open>
  What \<^verbatim>\<open>remove\<close> does on a well-formed collection, for the Tab at index \<open>i\<close>: \<open>w4\<close> is
  the world at the \<^verbatim>\<open>tab-destroyed\<close> notification, \<open>w'\<close> the one at the return.
\<close>

lemma remove_present:
  assumes inv: "tabs_inv w" and i: "i < length (tabList w)"
    and t: "t = tabList w ! i"
    and rest: "rest = take i (tabList w) @ drop (Suc i) (tabList w)"
  shows "\<exists>w4 evs w'.
           Tabs_remove (tab_id (heap w t)) w = (Return (), w', evs @ [(TabDestroyed t, w4)]) \<and>
           tabs_inv w4 \<and> tabList w4 = rest \<and> tabs_window w4 \<and>
           win_destroy_calls (win w4) = win_destroy_calls (win w) \<and>
           selected w4 =
             (if selected w = Some t
              then (if i < length rest then Some (rest ! i)
                    else if rest = [] then None else Some (rest ! (i - 1)))
              else selected w) \<and>
           destroyed (heap w4 t) \<and> \<not> tab_window (heap w4 t) \<and> \<not> tab_view (heap w4 t) \<and>
           \<not> tab_webContents (heap w4 t) \<and> \<not> visible (surface (heap w4 t)) \<and>
           wc (heap w4 t) = release_webContents (wc (heap w t)) \<and>
           childViews (win w4) = remove1 t (childViews (win w)) \<and>
           count_list (resize_listeners (win w4)) t =
             count_list (resize_listeners (win w)) t - 1 \<and>
           childViews (win w') = childViews (win w4) \<and>
           (\<forall>e\<in>set evs. obs_ok e) \<and>
           (evs = [] \<or> (\<exists>n. evs = [(TabSelected n, w4)])) \<and>
           (rest \<noteq> [] \<longrightarrow> w' = w4) \<and>
           (rest = [] \<longrightarrow> tabList w' = [] \<and> selected w' = None \<and> \<not> tabs_window w' \<and>
              win_destroy_calls (win w') = Suc (win_destroy_calls (win w))) \<and>
           tabs_inv w'"
proof -
  from inv have st: "tabs_struct w" by (simp add: tabs_inv_def)
  then have dist: "distinct (tabList w)"
    and ij: "inj_on (\<lambda>r. tab_id (heap w r)) (set (tabList w))"
    by (simp_all add: tabs_struct_def)
  have tin: "t \<in> set (tabList w)" using i t by simp
  have win: "tabs_window w" using st tin by (auto simp: tabs_struct_def)
  have idx: "findIndex (\<lambda>r. tab_id (heap w r) = tab_id (heap w t)) (tabList w) = int i"
    using findIndex_inj[OF dist ij i] t by simp
  note sp = splice_facts[OF dist i, folded rest t]
  have tnot: "t \<notin> set rest" using sp(2) by simp
  have sub: "\<And>x. x \<in> set rest \<Longrightarrow> x \<in> set (tabList w)" using sp(2) by simp
  define w1 where "w1 = w\<lparr>tabList := rest\<rparr>"
  have s1: "tabs_struct w1"
    unfolding tabs_struct_def
  proof (intro conjI ballI)
    show "distinct (tabList w1)" using sp(1) by (simp add: w1_def)
    show "inj_on (\<lambda>r. tab_id (heap w1 r)) (set (tabList w1))"
      using ij sub by (simp add: w1_def inj_on_def)
    show "tabList w1 \<noteq> [] \<longrightarrow> tabs_window w1" using win by (simp add: w1_def)
  next
    fix x assume "x \<in> set (tabList w1)"
    then have "x \<in> set (tabList w)" using sub by (simp add: w1_def)
    then have "live (heap w x) \<and> x < next_ref w \<and> tab_id (heap w x) < next_wc_id w"
      using st by (simp add: tabs_struct_def)
    then show "live (heap w1 x)" "x < next_ref w1" "tab_id (heap w1 x) < next_wc_id w1"
      by (simp_all add: w1_def)
  qed
  have "live (heap w1 t)" using st tin by (simp add: tabs_struct_def w1_def)
  from Tab_destroy_live[OF this] obtain w2 where
    h2: "Tab_destroy t w1 = (Return (), w2)" "only_tab t w1 w2"
      "destroyed (heap w2 t)" "\<not> visible (surface (heap w2 t))"
      "\<not> tab_window (heap w2 t)" "\<not> tab_view (heap w2 t)" "\<not> tab_webContents (heap w2 t)"
    by blast
  have host2: "wc (heap w2 t) = release_webContents (wc (heap w t))"
    "childViews (win w2) = remove1 t (childViews (win w))"
    "count_list (resize_listeners (win w2)) t = count_list (resize_listeners (win w)) t - 1"
    using Tab_destroy_win[OF \<open>live (heap w1 t)\<close>] h2(1)
    by (simp_all add: w1_def count_remove_last)
  have s2: "tabs_struct w2"
    using s1 h2(2) by (rule only_tab_struct) (simp add: w1_def tnot)
  have e2: "tabList w2 = rest" "selected w2 = selected w" "tabs_window w2"
    "win_destroy_calls (win w2) = win_destroy_calls (win w)"
    using h2(2) win by (simp_all add: only_tab_def w1_def)
  have heap2: "\<And>x. x \<in> set rest \<Longrightarrow> heap w2 x = heap w x"
  proof -
    fix x assume "x \<in> set rest"
    with tnot have "x \<noteq> t" by blast
    with h2(2) show "heap w2 x = heap w x" by (simp add: only_tab_def w1_def)
  qed
  text \<open>The selection step.\<close>
  define sel_step where "sel_step =
    (if selected w2 = Some t
     then (let w3 = w2\<lparr>selected := None\<rparr>
           in case js_or (js_nth (tabList w3) (int i)) (js_nth (tabList w3) (int i - 1)) of
                None \<Rightarrow> (Return (), w3, [])
              | Some nextTab \<Rightarrow> Tabs_select (tab_id (heap w3 nextTab)) w3)
     else (Return (), w2, []))"
  have "\<exists>w4 evs. sel_step = (Return (), w4, evs) \<and>
          tabs_inv w4 \<and> tabList w4 = rest \<and> tabs_window w4 \<and>
          win_destroy_calls (win w4) = win_destroy_calls (win w) \<and>
          selected w4 =
             (if selected w = Some t
              then (if i < length rest then Some (rest ! i)
                    else if rest = [] then None else Some (rest ! (i - 1)))
              else selected w) \<and>
          heap w4 t = heap w2 t \<and> (\<forall>e\<in>set evs. obs_ok e) \<and>
          (evs = [] \<or> (\<exists>n. evs = [(TabSelected n, w4)])) \<and>
          childViews (win w4) = childViews (win w2) \<and>
          count_list (resize_listeners (win w4)) t =
            count_list (resize_listeners (win w2)) t"
  proof (cases "selected w = Some t")
    case False
    then obtain s where s: "selected w = Some s" "s \<in> set (tabList w)" "s \<noteq> t"
      using inv tin by (cases "selected w") (auto simp: tabs_inv_def)
    then have srest: "s \<in> set rest" using sp(2) by simp
    have "\<forall>r\<in>set (tabList w2). visible (surface (heap w2 r)) \<longleftrightarrow> selected w2 = Some r"
      using inv heap2 sub e2 by (simp add: tabs_inv_def)
    then have "tabs_inv w2" using s2 e2 s srest by (simp add: tabs_inv_def)
    moreover have "sel_step = (Return (), w2, [])" using False e2 by (simp add: sel_step_def)
    ultimately show ?thesis using e2 False by simp
  next
    case True
    define w3 where "w3 = w2\<lparr>selected := None\<rparr>"
    have s3: "tabs_struct w3" using s2 by (simp add: w3_def tabs_struct_def)
    have e3: "tabList w3 = rest" "selected w3 = None" "tabs_window w3"
      "win_destroy_calls (win w3) = win_destroy_calls (win w)" "heap w3 = heap w2"
      "win w3 = win w2"
      using e2 by (simp_all add: w3_def)
    have nov: "\<And>x. x \<in> set rest \<Longrightarrow> \<not> visible (surface (heap w3 x))"
    proof -
      fix x assume x: "x \<in> set rest"
      then have "x \<noteq> t" using tnot by blast
      moreover have "visible (surface (heap w x)) \<longleftrightarrow> selected w = Some x"
        using inv sub[OF x] by (simp add: tabs_inv_def)
      ultimately show "\<not> visible (surface (heap w3 x))"
        using True heap2[OF x] e3(5) by simp
    qed
    show ?thesis
    proof (cases "rest = []")
      case rempty: True
      then have "js_or (js_nth (tabList w3) (int i)) (js_nth (tabList w3) (int i - 1)) = None"
        using e3(1) by (auto simp add: js_or_def js_nth_def)
      then have "sel_step = (Return (), w3, [])"
        using True e2 by (simp add: sel_step_def Let_def w3_def)
      moreover have "tabs_inv w3" using e3 rempty by (simp add: empty_inv)
      ultimately show ?thesis using e3 True rempty by simp
    next
      case nonempty: False
      define j where "j = (if i < length rest then i else i - 1)"
      have len: "length rest = length (tabList w) - 1" using sp(3) .
      have pos: "0 < length rest" using nonempty by simp
      have jlt: "j < length rest" using pos i len unfolding j_def by arith
      have "js_or (js_nth (tabList w3) (int i)) (js_nth (tabList w3) (int i - 1)) = Some (rest ! j)"
      proof (cases "i < length rest")
        case True
        then show ?thesis using e3(1) by (simp add: js_or_def js_nth_def j_def)
      next
        case False
        with i len pos have "i = length rest" "0 < i" by arith+
        then have "nat (int i - 1) = i - 1" "0 \<le> int i - 1" "int i - 1 < int (length rest)"
          by auto
        then show ?thesis using False e3(1) by (simp add: js_or_def js_nth_def j_def)
      qed
      then have step: "sel_step = Tabs_select (tab_id (heap w3 (rest ! j))) w3"
        using True e2 by (simp add: sel_step_def Let_def w3_def)
      have nin: "rest ! j \<in> set (tabList w3)" using jlt e3(1) by simp
      have "case selected w3 of None \<Rightarrow> True | Some s \<Rightarrow> s \<in> set (tabList w3)"
        using e3(2) by simp
      moreover have "\<forall>r\<in>set (tabList w3). r \<noteq> rest ! j \<longrightarrow>
          (visible (surface (heap w3 r)) \<longleftrightarrow> selected w3 = Some r)"
        using nov e3(1,2) by simp
      ultimately obtain w4 where
        h4: "Tabs_select (tab_id (heap w3 (rest ! j))) w3 =
               (Return (), w4, [(TabSelected (rest ! j), w4)])"
          "tabs_inv w4" "selected w4 = Some (rest ! j)" "tabList w4 = tabList w3"
          "tabs_window w4 = tabs_window w3"
          "win_destroy_calls (win w4) = win_destroy_calls (win w3)"
          "\<forall>r. r \<noteq> rest ! j \<longrightarrow> selected w3 \<noteq> Some r \<longrightarrow> heap w4 r = heap w3 r"
        using select_establishes[OF s3 nin] by blast
      have nt: "rest ! j \<noteq> t" using tnot jlt nth_mem by metis
      have "live (heap w3 (rest ! j))" using s3 nin by (simp add: tabs_struct_def)
      from Tabs_select_win[OF Tabs_get_present[OF s3 nin] this] h4(1) e3(2,6)
      have "childViews (win w4) = childViews (win w2)"
        "resize_listeners (win w4) = resize_listeners (win w2) @ [rest ! j]"
        by simp_all
      with nt have host4: "childViews (win w4) = childViews (win w2)"
        "count_list (resize_listeners (win w4)) t = count_list (resize_listeners (win w2)) t"
        by simp_all
      from nt have "heap w4 t = heap w2 t" using h4(7) e3(2,5) by simp
      moreover have "selected w4 = (if i < length rest then Some (rest ! i)
                    else if rest = [] then None else Some (rest ! (i - 1)))"
        using h4(3) nonempty by (simp add: j_def)
      ultimately show ?thesis
        using step h4 e3 True host4 by simp
    qed
  qed
  then obtain w4 evs where
    h: "sel_step = (Return (), w4, evs)" "tabs_inv w4" "tabList w4 = rest" "tabs_window w4"
      "win_destroy_calls (win w4) = win_destroy_calls (win w)"
      "selected w4 =
             (if selected w = Some t
              then (if i < length rest then Some (rest ! i)
                    else if rest = [] then None else Some (rest ! (i - 1)))
              else selected w)"
      "heap w4 t = heap w2 t" "\<forall>e\<in>set evs. obs_ok e"
      "evs = [] \<or> (\<exists>n. evs = [(TabSelected n, w4)])"
      "childViews (win w4) = childViews (win w2)"
      "count_list (resize_listeners (win w4)) t = count_list (resize_listeners (win w2)) t"
    by blast
  have host: "wc (heap w4 t) = release_webContents (wc (heap w t))"
    "childViews (win w4) = remove1 t (childViews (win w))"
    "count_list (resize_listeners (win w4)) t = count_list (resize_listeners (win w)) t - 1"
    using host2 h(7,10,11) by simp_all
  have unfold: "Tabs_remove (tab_id (heap w t)) w =
      (let evs' = evs @ [(TabDestroyed t, w4)]
       in if length (tabList w4) = 0
          then (case Tabs_destroy w4 of (res, w5) \<Rightarrow> (res, w5, evs'))
          else (Return (), w4, evs'))"
  proof -
    have "Tabs_remove (tab_id (heap w t)) w =
      (case Tab_destroy t w1 of
         (Throw e, w2) \<Rightarrow> (Throw e, w2, [])
       | (Return _, w2) \<Rightarrow>
           (case (if selected w2 = Some t
                  then (let w3 = w2\<lparr>selected := None\<rparr>
                        in case js_or (js_nth (tabList w3) (int i))
                                      (js_nth (tabList w3) (int i - 1)) of
                             None \<Rightarrow> (Return (), w3, [])
                           | Some nextTab \<Rightarrow> Tabs_select (tab_id (heap w3 nextTab)) w3)
                  else (Return (), w2, [])) of
              (Throw e, w4, evs) \<Rightarrow> (Throw e, w4, evs)
            | (Return _, w4, evs) \<Rightarrow>
                (let evs' = evs @ [(TabDestroyed t, w4)]
                 in if length (tabList w4) = 0
                    then (case Tabs_destroy w4 of (res, w5) \<Rightarrow> (res, w5, evs'))
                    else (Return (), w4, evs'))))"
      unfolding Tabs_remove_def idx Let_def splice1_def nat_int
      unfolding w1_def rest t
      by simp
    also have "\<dots> = (let evs' = evs @ [(TabDestroyed t, w4)]
       in if length (tabList w4) = 0
          then (case Tabs_destroy w4 of (res, w5) \<Rightarrow> (res, w5, evs'))
          else (Return (), w4, evs'))"
      unfolding h2(1) using h(1) unfolding sel_step_def by simp
    finally show ?thesis .
  qed
  show ?thesis
  proof (cases "rest = []")
    case True
    then have "tabList w4 = []" using h(3) by simp
    from Tabs_destroy_empty[OF this h(4)] obtain w5 where
      h5: "Tabs_destroy w4 = (Return (), w5)" "tabList w5 = []" "selected w5 = None"
        "\<not> tabs_window w5" "win_destroy_calls (win w5) = Suc (win_destroy_calls (win w4))"
        "childViews (win w5) = childViews (win w4)"
      by blast
    have "Tabs_remove (tab_id (heap w t)) w = (Return (), w5, evs @ [(TabDestroyed t, w4)])"
      using unfold h5(1) \<open>tabList w4 = []\<close> by (simp add: Let_def)
    moreover have "tabs_inv w5" using h5(2,3) by (rule empty_inv)
    ultimately show ?thesis
      using h h2 h5 True host
      by (intro exI[of _ w4] exI[of _ evs] exI[of _ w5]) simp
  next
    case False
    then have "Tabs_remove (tab_id (heap w t)) w = (Return (), w4, evs @ [(TabDestroyed t, w4)])"
      using unfold h(3) by (simp add: Let_def)
    then show ?thesis
      using h h2 False host
      by (intro exI[of _ w4] exI[of _ evs] exI[of _ w4]) simp
  qed
qed

subsection \<open>The invariant along a sequence of calls\<close>

text \<open>
  A new collection is well-formed and every call keeps it so, whether it returns or
  throws: \<open>tabs_inv\<close> holds in every state that calls can reach, and \<open>obs_ok\<close> at
  every notification on the way.
\<close>

lemma remove_absent:
  assumes "\<forall>r\<in>set (tabList w). tab_id (heap w r) \<noteq> tabId"
  shows "Tabs_remove tabId w = (Throw (NotFound tabId), w, [])"
  using assms findIndex_neg[of "\<lambda>r. tab_id (heap w r) = tabId" "tabList w"]
  by (simp add: Tabs_remove_def)

lemma find_index:
  "find P xs = Some t \<Longrightarrow> \<exists>i<length xs. xs ! i = t \<and> P t"
  by (auto simp: find_Some_iff)

lemma Tabs_get_Some:
  assumes "Tabs_get w tabId = Some t"
  shows "\<exists>i<length (tabList w). tabList w ! i = t \<and> tab_id (heap w t) = tabId"
  using assms find_index[of "\<lambda>r. tab_id (heap w r) = tabId" "tabList w" t]
  by (simp add: Tabs_get_def)

lemma Tabs_get_None:
  "Tabs_get w tabId = None \<longleftrightarrow> (\<forall>r\<in>set (tabList w). tab_id (heap w r) \<noteq> tabId)"
  by (auto simp: Tabs_get_def find_None_iff)

lemma init_inv: "tabs_inv (Tabs_new sz)"
  by (simp add: Tabs_new_def tabs_inv_def tabs_struct_def)

lemma apply_op_inv:
  assumes inv: "tabs_inv w"
  shows "tabs_inv (fst (apply_op c w)) \<and> (\<forall>e\<in>set (snd (apply_op c w)). obs_ok e)"
proof (cases c)
  case Create
  show ?thesis
  proof (cases "tabs_window w")
    case True
    from create_live[OF inv True] show ?thesis using Create by auto
  next
    case False
    from create_dead[OF inv False] show ?thesis using Create by auto
  qed
next
  case (Select i)
  show ?thesis
  proof (cases "Tabs_get w i")
    case None
    then show ?thesis using Select inv by (simp add: Tabs_select_def)
  next
    case (Some t)
    from Tabs_get_Some[OF Some] have t: "t \<in> set (tabList w)" "tab_id (heap w t) = i"
      by auto
    from inv have "tabs_struct w"
      "case selected w of None \<Rightarrow> True | Some s \<Rightarrow> s \<in> set (tabList w)"
      "\<forall>r\<in>set (tabList w). r \<noteq> t \<longrightarrow>
         (visible (surface (heap w r)) \<longleftrightarrow> selected w = Some r)"
      by (auto simp: tabs_inv_def split: option.splits)
    from select_establishes[OF this(1) t(1) this(2,3)] show ?thesis
      using Select t(2) by auto
  qed
next
  case (Remove i)
  show ?thesis
  proof (cases "Tabs_get w i")
    case None
    then have "Tabs_remove i w = (Throw (NotFound i), w, [])"
      by (simp add: remove_absent Tabs_get_None)
    then show ?thesis using Remove inv by simp
  next
    case (Some t)
    from Tabs_get_Some[OF Some] obtain k where
      k: "k < length (tabList w)" "tabList w ! k = t" "tab_id (heap w t) = i" by blast
    from remove_present[OF inv k(1) k(2)[symmetric] refl] show ?thesis
      using Remove k(3) by auto
  qed
qed

lemma run_ops_inv:
  "tabs_inv w \<Longrightarrow>
   tabs_inv (fst (run_ops cs w)) \<and> (\<forall>e\<in>set (snd (run_ops cs w)). obs_ok e)"
proof (induction cs arbitrary: w)
  case Nil
  then show ?case by simp
next
  case (Cons c cs)
  from apply_op_inv[OF Cons.prems, of c]
  have a: "tabs_inv (fst (apply_op c w))" "\<forall>e\<in>set (snd (apply_op c w)). obs_ok e"
    by simp_all
  from Cons.IH[OF a(1)] a(2) show ?case
    by (auto split: prod.splits)
qed

lemma filter_eq_distinct:
  "distinct xs \<Longrightarrow> length (filter (\<lambda>r. s = Some r) xs) \<le> 1"
proof (induction xs)
  case Nil
  then show ?case by simp
next
  case (Cons x xs)
  show ?case
  proof (cases "s = Some x")
    case True
    with Cons.prems have "\<forall>y\<in>set xs. s \<noteq> Some y" by auto
    then have "filter (\<lambda>r. s = Some r) xs = []" by (simp add: filter_empty_conv)
    with True show ?thesis by simp
  next
    case False
    with Cons show ?thesis by simp
  qed
qed

lemma filter_inj_one:
  "distinct xs \<Longrightarrow> inj_on f (set xs) \<Longrightarrow> s \<in> set xs \<Longrightarrow>
   length (filter (\<lambda>r. f r = f s) xs) = 1"
proof (induction xs)
  case Nil
  then show ?case by simp
next
  case (Cons x xs)
  show ?case
  proof (cases "x = s")
    case True
    with Cons.prems have "\<forall>y\<in>set xs. f y \<noteq> f s" by (auto simp: inj_on_def)
    then have "filter (\<lambda>r. f r = f s) xs = []" by (simp add: filter_empty_conv)
    with True show ?thesis by simp
  next
    case False
    with Cons.prems have "f x \<noteq> f s" "s \<in> set xs" "distinct xs" "inj_on f (set xs)"
      by (auto simp: inj_on_def)
    with Cons.IH show ?thesis by simp
  qed
qed

lemma inv_one_selected:
  assumes "tabs_struct w" "selected w = Some s" "s \<in> set (tabList w)"
  shows "one_selected w"
  using assms filter_inj_one[of "tabList w" "\<lambda>r. tab_id (heap w r)" s]
  by (simp add: one_selected_def tabs_struct_def)

lemma inv_single:
  assumes "tabs_inv w"
  shows "single_selection w"
proof -
  have "visible_tabs w = filter (\<lambda>r. selected w = Some r) (tabList w)"
    unfolding visible_tabs_def using assms by (intro filter_cong) (simp_all add: tabs_inv_def)
  moreover have "distinct (tabList w)" using assms by (simp add: tabs_inv_def tabs_struct_def)
  ultimately have a: "at_most_one_visible w"
    using filter_eq_distinct[of "tabList w" "selected w"]
    by (simp add: at_most_one_visible_def)
  have "tabList w \<noteq> [] \<longrightarrow> one_selected w"
  proof
    assume "tabList w \<noteq> []"
    then obtain s where "selected w = Some s" "s \<in> set (tabList w)"
      using assms by (cases "selected w") (auto simp: tabs_inv_def)
    then show "one_selected w" using assms inv_one_selected by (simp add: tabs_inv_def)
  qed
  with a show ?thesis by (simp add: single_selection_def)
qed

lemma created_single:
  assumes "created_ok t w"
  shows "one_selected w \<and> (\<forall>r\<in>set (visible_tabs w). r = t \<or> selected w = Some r)"
proof -
  obtain s where "selected w = Some s" "s \<in> set (tabList w)"
    using assms by (cases "selected w") (auto simp: created_ok_def)
  then have "one_selected w" using assms inv_one_selected by (simp add: created_ok_def)
  moreover have "\<forall>r\<in>set (visible_tabs w). r = t \<or> selected w = Some r"
    using assms by (auto simp: created_ok_def visible_tabs_def)
  ultimately show ?thesis by simp
qed

subsection \<open>A collection after its teardown\<close>

lemma dead_apply_op:
  assumes "tabList w = []" "selected w = None" "\<not> tabs_window w"
  shows "tabList (fst (apply_op c w)) = [] \<and> selected (fst (apply_op c w)) = None \<and>
         \<not> tabs_window (fst (apply_op c w)) \<and> win (fst (apply_op c w)) = win w"
proof (cases c)
  case Create
  from create_dead[OF empty_inv[OF assms(1,2)] assms(3)] show ?thesis
    using Create by auto
next
  case (Select i)
  then show ?thesis using assms by (simp add: Tabs_select_def Tabs_get_def)
next
  case (Remove i)
  then show ?thesis using assms by (simp add: remove_absent)
qed

lemma fst_run_ops_Cons:
  "fst (run_ops (c # cs) w) = fst (run_ops cs (fst (apply_op c w)))"
  by (simp split: prod.splits)

lemma dead_run_ops:
  assumes "tabList w = []" "selected w = None" "\<not> tabs_window w"
  shows "tabList (fst (run_ops cs w)) = [] \<and> selected (fst (run_ops cs w)) = None \<and>
         \<not> tabs_window (fst (run_ops cs w)) \<and> win (fst (run_ops cs w)) = win w"
  using assms
proof (induction cs arbitrary: w)
  case Nil
  then show ?case by simp
next
  case (Cons c cs)
  from dead_apply_op[OF Cons.prems, of c]
  have a: "tabList (fst (apply_op c w)) = []" "selected (fst (apply_op c w)) = None"
    "\<not> tabs_window (fst (apply_op c w))" "win (fst (apply_op c w)) = win w" by simp_all
  from Cons.IH[OF a(1,2,3)] a(4) show ?case
    by (simp only: fst_run_ops_Cons) simp
qed

lemma dead_destroy:
  assumes "tabList w = []" "selected w = None" "\<not> tabs_window w"
  shows "Tabs_destroy w = (Return (), w)"
  using assms by (cases w) (simp add: Tabs_destroy_def)

subsection \<open>The views attached to the window\<close>

text \<open>
  The window's child views are the views of the Tabs of the sequence, in the same order:
  \<^verbatim>\<open>create\<close> attaches and appends, \<^verbatim>\<open>remove\<close> splices and detaches. This holds in
  every state that calls can reach.
\<close>

lemma remove1_nth:
  assumes "distinct xs" "i < length xs"
  shows "remove1 (xs ! i) xs = take i xs @ drop (Suc i) xs"
proof -
  define a where "a = take i xs"
  define b where "b = drop (Suc i) xs"
  have xs: "xs = a @ xs ! i # b"
    using assms(2) by (simp add: a_def b_def id_take_nth_drop)
  have "distinct (a @ xs ! i # b)" using assms(1) xs by simp
  then have "xs ! i \<notin> set a" by simp
  then have "remove1 (xs ! i) (a @ xs ! i # b) = a @ b" by (simp add: remove1_append)
  then have "remove1 (xs ! i) xs = a @ b" using xs by simp
  then show ?thesis by (simp add: a_def b_def)
qed

lemma apply_op_views:
  assumes inv: "tabs_inv w" and v: "childViews (win w) = tabList w"
  shows "childViews (win (fst (apply_op c w))) = tabList (fst (apply_op c w))"
proof (cases c)
  case Create
  show ?thesis
  proof (cases "tabs_window w")
    case True
    from create_live[OF inv True] v show ?thesis using Create by auto
  next
    case False
    with inv have "tabList w = []" by (auto simp: tabs_inv_def tabs_struct_def)
    with create_dead[OF inv False] v show ?thesis using Create by auto
  qed
next
  case (Select i)
  show ?thesis
  proof (cases "Tabs_get w i")
    case None
    then show ?thesis using Select v by (simp add: Tabs_select_def)
  next
    case (Some t)
    from Tabs_get_Some[OF Some] have t: "t \<in> set (tabList w)" "tab_id (heap w t) = i"
      by auto
    from inv have st: "tabs_struct w"
      and sel: "case selected w of None \<Rightarrow> True | Some s \<Rightarrow> s \<in> set (tabList w)"
      and vis: "\<forall>r\<in>set (tabList w). r \<noteq> t \<longrightarrow>
         (visible (surface (heap w r)) \<longleftrightarrow> selected w = Some r)"
      by (auto simp: tabs_inv_def split: option.splits)
    have lt: "live (heap w t)" using st t(1) by (simp add: tabs_struct_def)
    have ls: "case selected w of None \<Rightarrow> True | Some s \<Rightarrow> live (heap w s)"
      using st sel by (cases "selected w") (simp_all add: tabs_struct_def)
    from select_establishes[OF st t(1) sel vis] t(2)
    have "tabList (fst (snd (Tabs_select i w))) = tabList w" by auto
    with Tabs_select_win(1)[OF Some lt ls] v show ?thesis using Select by simp
  qed
next
  case (Remove i)
  show ?thesis
  proof (cases "Tabs_get w i")
    case None
    then have "Tabs_remove i w = (Throw (NotFound i), w, [])"
      by (simp add: remove_absent Tabs_get_None)
    then show ?thesis using Remove v by simp
  next
    case (Some t)
    from Tabs_get_Some[OF Some] obtain k where
      k: "k < length (tabList w)" "tabList w ! k = t" "tab_id (heap w t) = i" by blast
    define rest where "rest = take k (tabList w) @ drop (Suc k) (tabList w)"
    have dist: "distinct (tabList w)" using inv by (simp add: tabs_inv_def tabs_struct_def)
    have r1: "remove1 t (tabList w) = rest"
      using remove1_nth[OF dist k(1)] k(2) by (simp add: rest_def)
    from remove_present[OF inv k(1) k(2)[symmetric] rest_def] obtain w4 evs w' where
      r: "Tabs_remove i w = (Return (), w', evs @ [(TabDestroyed t, w4)])"
        "tabList w4 = rest" "childViews (win w4) = remove1 t (childViews (win w))"
        "childViews (win w') = childViews (win w4)"
        "rest \<noteq> [] \<longrightarrow> w' = w4" "rest = [] \<longrightarrow> tabList w' = []"
      unfolding k(3) by blast
    have "childViews (win w') = tabList w'"
    proof (cases "rest = []")
      case True
      with r v r1 show ?thesis by simp
    next
      case False
      with r v r1 show ?thesis by simp
    qed
    then show ?thesis using Remove r(1) by simp
  qed
qed

lemma run_ops_views:
  "tabs_inv w \<Longrightarrow> childViews (win w) = tabList w \<Longrightarrow>
   childViews (win (fst (run_ops cs w))) = tabList (fst (run_ops cs w))"
proof (induction cs arbitrary: w)
  case Nil
  then show ?case by simp
next
  case (Cons c cs)
  from apply_op_inv[OF Cons.prems(1), of c]
  have a: "tabs_inv (fst (apply_op c w))" by simp
  from Cons.IH[OF a apply_op_views[OF Cons.prems]] show ?case
    by (simp only: fst_run_ops_Cons)
qed

lemma reachable_views:
  "childViews (win (fst (run_ops cs (Tabs_new sz)))) = tabList (fst (run_ops cs (Tabs_new sz)))"
  by (rule run_ops_views[OF init_inv]) (simp add: Tabs_new_def)



subsection \<open>The calls on a destroyed Tab\<close>

text \<open>
  After \<^verbatim>\<open>destroy()\<close> on a live Tab the flag is set and \<^verbatim>\<open>this.window\<close> is
  \<^verbatim>\<open>undefined\<close>. A further \<^verbatim>\<open>destroy()\<close> returns at its guard; \<^verbatim>\<open>show()\<close> and
  \<^verbatim>\<open>hide()\<close> have no guard and throw at their first statement. None of the three
  changes the world.
\<close>

lemma destroyed_tab_calls:
  assumes "live (heap w0 r)" and "w = snd (Tab_destroy r w0)"
  shows "fst (Tab_destroy r w0) = Return () \<and> destroyed (heap w r) \<and> \<not> live (heap w r) \<and>
         Tab_destroy r w = (Return (), w) \<and>
         Tab_show r w = (Throw TypeError, w) \<and>
         Tab_hide r w = (Throw TypeError, w) \<and>
         (\<forall>cs. run_tab_calls r cs w = w)"
proof -
  from Tab_destroy_live[OF assms(1)] assms(2)
  have d: "fst (Tab_destroy r w0) = Return ()" "destroyed (heap w r)" "\<not> tab_window (heap w r)"
    by auto
  have 1: "Tab_destroy r w = (Return (), w)" using d(2) by (simp add: Tab_destroy_def)
  have 2: "Tab_show r w = (Throw TypeError, w)"
    using d(3) by (simp add: Tab_show_def Tab_invalidateLayout_def)
  have 3: "Tab_hide r w = (Throw TypeError, w)"
    using d(3) by (simp add: Tab_hide_def Tab_stopResizeListener_def)
  have "run_tab_calls r cs w = w" for cs
  proof (induction cs)
    case Nil
    then show ?case by simp
  next
    case (Cons c cs)
    then show ?case using 1 2 3 by (cases c) simp_all
  qed
  then show ?thesis using d 1 2 3 by (simp add: live_def)
qed

section \<open>The claims\<close>

text \<open>
  C5. A layout recomputation on a Tab that holds its window and its view, in a window of
  size \<open>(winWidth, winHeight)\<close>, returns and sets the bounds of the surface to
  \<open>x = padding\<close>, \<open>y = toolbarHeight + padding\<close>, \<open>width = winWidth - 2 * padding\<close>,
  \<open>height = winHeight - toolbarHeight - 2 * padding\<close>, where the chrome height is 62 and
  the padding is 4; for a window of 800 by 600 the bounds are \<open>{x:4, y:66, width:792,
  height:530}\<close>.
\<close>

theorem layout_formula:
  assumes "tab_window (heap w r)" and "tab_view (heap w r)"
    and "win_size (win w) = (winWidth, winHeight)"
  shows "fst (Tab_invalidateLayout r w) = Return () \<and>
         bounds (surface (heap (snd (Tab_invalidateLayout r w)) r)) =
           Some \<lparr>rect_x = padding, rect_y = toolbarHeight + padding,
                 rect_width = winWidth - 2 * padding,
                 rect_height = winHeight - toolbarHeight - 2 * padding\<rparr> \<and>
         toolbarHeight = 62 \<and> padding = 4 \<and>
         ((winWidth, winHeight) = (800, 600) \<longrightarrow>
            bounds (surface (heap (snd (Tab_invalidateLayout r w)) r)) =
              Some \<lparr>rect_x = 4, rect_y = 66, rect_width = 792, rect_height = 530\<rparr>)"
  using assms
  by (simp add: Tab_invalidateLayout_def upd_defs toolbarHeight_def padding_def)

theorem layout_formula_witness:
  "tab_window (heap world_one 0) \<and> tab_view (heap world_one 0) \<and>
   win_size (win world_one) = (800, 600) \<and>
   bounds (surface (heap (snd (Tab_invalidateLayout 0 world_one)) 0)) =
     Some \<lparr>rect_x = 4, rect_y = 66, rect_width = 792, rect_height = 530\<rparr>"
proof -
  have h1: "tab_window (heap world_one 0)" unfolding world_one_def by code_simp
  have h2: "tab_view (heap world_one 0)" unfolding world_one_def by code_simp
  have h3: "win_size (win world_one) = (800, 600)" unfolding world_one_def by code_simp
  show ?thesis using layout_formula[OF h1 h2 h3] h1 h2 h3 by simp
qed

text \<open>
  C7. When no Tab of the collection has the id \<open>tabId\<close>, \<^verbatim>\<open>remove(tabId)\<close> throws the
  not-found error and the world is the one before the call: the sequence, the selection
  and every Tab are unchanged, and nothing is notified.
\<close>

theorem remove_not_found:
  assumes "\<forall>r\<in>set (tabList w). tab_id (heap w r) \<noteq> tabId"
  shows "Tabs_remove tabId w = (Throw (NotFound tabId), w, [])"
  using assms findIndex_neg[of "\<lambda>r. tab_id (heap w r) = tabId" "tabList w"]
  by (simp add: Tabs_remove_def)

theorem remove_not_found_witness:
  "map (\<lambda>r. tab_id (heap world_two r)) (tabList world_two) = [1, 2] \<and>
   Tabs_remove 7 world_two = (Throw (NotFound 7), world_two, [])"
proof -
  have h: "map (\<lambda>r. tab_id (heap world_two r)) (tabList world_two) = [1, 2]"
    unfolding world_two_def world_one_def by code_simp
  have "7 \<notin> set (map (\<lambda>r. tab_id (heap world_two r)) (tabList world_two))"
    unfolding h by simp
  then have "\<forall>r\<in>set (tabList world_two). tab_id (heap world_two r) \<noteq> 7"
    by (simp add: image_iff)
  from remove_not_found[OF this] h show ?thesis by simp
qed

text \<open>
  C8. When \<open>tabId\<close> does not resolve to a Tab of the collection, \<^verbatim>\<open>select(tabId)\<close>
  returns without an error and without a notification, and the world is the one before
  the call: the selection and every Tab's visibility are intact.
\<close>

theorem select_unknown_noop:
  assumes "Tabs_get w tabId = None"
  shows "Tabs_select tabId w = (Return (), w, [])"
  using assms by (simp add: Tabs_select_def)

theorem select_unknown_noop_witness:
  "Tabs_get world_two 7 = None \<and>
   Tabs_select 7 world_two = (Return (), world_two, [])"
proof -
  have h: "Tabs_get world_two 7 = None"
    unfolding world_two_def world_one_def by code_simp
  show ?thesis using select_unknown_noop[OF h] h by simp
qed

text \<open>
  C1, as stated, fails. After two \<^verbatim>\<open>create()\<close> calls on a new collection, the listener
  of the second \<^verbatim>\<open>tab-created\<close> notification (the third notification in all) sees both
  Tabs visible: \<^verbatim>\<open>create\<close> shows the new Tab before it notifies, and only the
  \<^verbatim>\<open>select\<close> that follows hides the Tab selected so far.
\<close>

theorem single_selection_counterexample:
  "fst (snd (run_ops [Create, Create] (Tabs_new (800, 600))) ! 2) = TabCreated 1 \<and>
   visible_tabs (snd (snd (run_ops [Create, Create] (Tabs_new (800, 600))) ! 2)) = [0, 1] \<and>
   \<not> single_selection (snd (snd (run_ops [Create, Create] (Tabs_new (800, 600))) ! 2))"
  by code_simp

text \<open>
  C1, amended. For every sequence of \<^verbatim>\<open>create\<close>, \<^verbatim>\<open>select\<close> and \<^verbatim>\<open>remove\<close> calls
  on a new collection (calls that throw included), in the state after the sequence and at
  every \<^verbatim>\<open>tab-selected\<close> and \<^verbatim>\<open>tab-destroyed\<close> notification, at most one Tab of the
  sequence is visible and, when the sequence is not empty, exactly one Tab of the sequence
  has the id of the selected Tab. At a \<^verbatim>\<open>tab-created\<close> notification exactly one Tab has
  the id of the selected Tab as well, and a visible Tab is the new Tab or the selected one.
\<close>

theorem single_selection_between_calls:
  "single_selection (fst (run_ops cs (Tabs_new sz))) \<and>
   list_all obs_single (snd (run_ops cs (Tabs_new sz)))"
proof -
  from run_ops_inv[OF init_inv, of cs sz]
  have a: "tabs_inv (fst (run_ops cs (Tabs_new sz)))"
    and b: "\<forall>e\<in>set (snd (run_ops cs (Tabs_new sz))). obs_ok e" by simp_all
  have "obs_single e" if "obs_ok e" for e
  proof (cases e)
    case (Pair ev s)
    with that show ?thesis
      by (cases ev) (simp_all add: inv_single created_single)
  qed
  with b have "list_all obs_single (snd (run_ops cs (Tabs_new sz)))"
    by (simp add: list_all_iff)
  with a show ?thesis by (simp add: inv_single)
qed

theorem single_selection_between_calls_witness:
  "single_selection (fst (run_ops [Create, Create, Select 1, Remove 1] (Tabs_new (800, 600)))) \<and>
   list_all obs_single (snd (run_ops [Create, Create, Select 1, Remove 1] (Tabs_new (800, 600)))) \<and>
   map fst (snd (run_ops [Create, Create, Select 1, Remove 1] (Tabs_new (800, 600)))) =
     [TabCreated 0, TabSelected 0, TabCreated 1, TabSelected 1, TabSelected 0,
      TabSelected 1, TabDestroyed 0]"
proof -
  have "map fst (snd (run_ops [Create, Create, Select 1, Remove 1] (Tabs_new (800, 600)))) =
     [TabCreated 0, TabSelected 0, TabCreated 1, TabSelected 1, TabSelected 0,
      TabSelected 1, TabDestroyed 0]"
    by code_simp
  with single_selection_between_calls[of "[Create, Create, Select 1, Remove 1]" "(800, 600)"]
  show ?thesis by simp
qed

text \<open>
  C10. On a well-formed collection that still has its window, \<^verbatim>\<open>create()\<close> returns a
  new Tab (a reference that is not in the sequence, hence not the selection so far); after
  the call this Tab is the selection and the sequence is the old one with the new Tab
  appended.
\<close>

theorem create_selects_new:
  assumes "tabs_inv w" and "tabs_window w"
  shows "fst (Tabs_create w) = Return (next_ref w) \<and>
         next_ref w \<notin> set (tabList w) \<and> selected w \<noteq> Some (next_ref w) \<and>
         selected (fst (snd (Tabs_create w))) = Some (next_ref w) \<and>
         tabList (fst (snd (Tabs_create w))) = tabList w @ [next_ref w]"
proof -
  have old: "\<forall>r\<in>set (tabList w). r < next_ref w"
    using assms(1) by (simp add: tabs_inv_def tabs_struct_def)
  then have fresh: "next_ref w \<notin> set (tabList w)" by auto
  have "selected w \<noteq> Some (next_ref w)"
    using assms(1) fresh by (cases "selected w") (auto simp: tabs_inv_def)
  with create_live[OF assms] fresh show ?thesis by auto
qed

theorem create_selects_new_witness:
  "tabs_inv world_one \<and> tabs_window world_one \<and> selected world_one = Some 0 \<and>
   fst (Tabs_create world_one) = Return 1 \<and>
   selected (fst (snd (Tabs_create world_one))) = Some 1 \<and>
   tabList (fst (snd (Tabs_create world_one))) = [0, 1]"
proof -
  have h1: "tabs_inv world_one" unfolding world_one_def by code_simp
  have h2: "tabs_window world_one" unfolding world_one_def by code_simp
  have h3: "selected world_one = Some 0 \<and> next_ref world_one = 1 \<and> tabList world_one = [0]"
    unfolding world_one_def by code_simp
  show ?thesis using create_selects_new[OF h1 h2] h1 h2 h3 by simp
qed

text \<open>
  C2. On a well-formed collection, when the selected Tab, at index \<open>i\<close>, is removed and
  other Tabs remain, \<^verbatim>\<open>remove\<close> returns and the selection is the Tab now at index \<open>i\<close>
  of the sequence, or, when the removed Tab was the last one, the new last Tab. For the
  sequence \<open>[a, b, c]\<close>: removing the selected \<open>b\<close> selects \<open>c\<close>, removing the selected
  \<open>c\<close> selects \<open>b\<close>.
\<close>

theorem remove_selected_tie_break:
  assumes "tabs_inv w" and "i < length (tabList w)" and "1 < length (tabList w)"
    and "selected w = Some (tabList w ! i)"
    and "w' = fst (snd (Tabs_remove (tab_id (heap w (tabList w ! i))) w))"
  shows "fst (Tabs_remove (tab_id (heap w (tabList w ! i))) w) = Return () \<and>
         tabList w' = take i (tabList w) @ drop (Suc i) (tabList w) \<and>
         selected w' = Some (if i < length (tabList w') then tabList w' ! i
                             else last (tabList w')) \<and>
         (tabList w = [a, b, c] \<and> i = 1 \<longrightarrow> tabList w' = [a, c] \<and> selected w' = Some c) \<and>
         (tabList w = [a, b, c] \<and> i = 2 \<longrightarrow> tabList w' = [a, b] \<and> selected w' = Some b)"
proof -
  define rest where "rest = take i (tabList w) @ drop (Suc i) (tabList w)"
  have len: "length rest = length (tabList w) - 1" using assms(2) by (simp add: rest_def)
  then have ne: "rest \<noteq> []" using assms(3) by auto
  from remove_present[OF assms(1,2) refl rest_def] ne assms(4,5)
  have r: "fst (Tabs_remove (tab_id (heap w (tabList w ! i))) w) = Return ()"
    "tabList w' = rest"
    "selected w' = (if i < length rest then Some (rest ! i) else Some (rest ! (i - 1)))"
    by auto
  have "rest ! (i - 1) = last rest" if "\<not> i < length rest"
  proof -
    from that len assms(2) have "i - 1 = length rest - 1" by arith
    then show ?thesis using ne by (simp add: last_conv_nth)
  qed
  with r(3) have s: "selected w' = Some (if i < length rest then rest ! i else last rest)"
    by simp
  have "tabList w = [a, b, c] \<and> i = 1 \<longrightarrow> tabList w' = [a, c] \<and> selected w' = Some c"
    using r(2) s by (auto simp: rest_def)
  moreover
  have "tabList w = [a, b, c] \<and> i = 2 \<longrightarrow> tabList w' = [a, b] \<and> selected w' = Some b"
    using r(2) s by (auto simp: rest_def)
  ultimately show ?thesis using r(1,2) s by (simp add: rest_def)
qed

theorem remove_selected_tie_break_witness:
  "tabs_inv world_three_mid \<and> tabList world_three_mid = [0, 1, 2] \<and>
   selected world_three_mid = Some 1 \<and> tab_id (heap world_three_mid 1) = 2 \<and>
   fst (Tabs_remove 2 world_three_mid) = Return () \<and>
   tabList (fst (snd (Tabs_remove 2 world_three_mid))) = [0, 2] \<and>
   selected (fst (snd (Tabs_remove 2 world_three_mid))) = Some 2 \<and>
   tabs_inv world_three \<and> tabList world_three = [0, 1, 2] \<and>
   selected world_three = Some 2 \<and> tab_id (heap world_three 2) = 3 \<and>
   fst (Tabs_remove 3 world_three) = Return () \<and>
   tabList (fst (snd (Tabs_remove 3 world_three))) = [0, 1] \<and>
   selected (fst (snd (Tabs_remove 3 world_three))) = Some 1"
proof -
  have h1: "tabs_inv world_three_mid"
    unfolding world_three_mid_def world_three_def world_two_def world_one_def by code_simp
  have h2: "tabList world_three_mid = [0, 1, 2] \<and> selected world_three_mid = Some 1 \<and>
            tab_id (heap world_three_mid 1) = 2"
    unfolding world_three_mid_def world_three_def world_two_def world_one_def by code_simp
  from h2 have h3: "(1::nat) < length (tabList world_three_mid)"
    and h4: "selected world_three_mid = Some (tabList world_three_mid ! 1)" by simp_all
  have k1: "tabs_inv world_three"
    unfolding world_three_def world_two_def world_one_def by code_simp
  have k2: "tabList world_three = [0, 1, 2] \<and> selected world_three = Some 2 \<and>
            tab_id (heap world_three 2) = 3"
    unfolding world_three_def world_two_def world_one_def by code_simp
  from k2 have k3: "(2::nat) < length (tabList world_three)"
    and k3': "(1::nat) < length (tabList world_three)"
    and k4: "selected world_three = Some (tabList world_three ! 2)" by simp_all
  show ?thesis
    using remove_selected_tie_break[OF h1 h3 h3 h4 refl, of 0 1 2]
      remove_selected_tie_break[OF k1 k3 k3' k4 refl, of 0 1 2] h1 h2 k1 k2
    by simp
qed

text \<open>
  C6. On a well-formed collection whose sequence is the one Tab \<open>t\<close>, \<^verbatim>\<open>remove\<close> of its
  id returns, the sequence is empty, the selection is unset, the collection has let go of
  its window and \<^verbatim>\<open>window.destroy()\<close> has run exactly once more than before. The state
  reached is terminal: a further \<^verbatim>\<open>destroy()\<close> changes nothing, and after any sequence of
  \<^verbatim>\<open>create\<close>, \<^verbatim>\<open>select\<close> and \<^verbatim>\<open>remove\<close> calls the sequence is still empty, the selection
  unset, the window gone and not destroyed again.
\<close>

theorem remove_last_tab_cascade:
  assumes "tabs_inv w" and "tabList w = [t]"
    and "w' = fst (snd (Tabs_remove (tab_id (heap w t)) w))"
  shows "fst (Tabs_remove (tab_id (heap w t)) w) = Return () \<and>
         tabList w' = [] \<and> selected w' = None \<and> \<not> tabs_window w' \<and>
         win_destroy_calls (win w') = Suc (win_destroy_calls (win w)) \<and>
         Tabs_destroy w' = (Return (), w') \<and>
         (\<forall>cs. tabList (fst (run_ops cs w')) = [] \<and> selected (fst (run_ops cs w')) = None \<and>
               \<not> tabs_window (fst (run_ops cs w')) \<and>
               win_destroy_calls (win (fst (run_ops cs w'))) = win_destroy_calls (win w'))"
proof -
  have i: "0 < length (tabList w)" and t: "t = tabList w ! 0"
    and rest: "[] = take 0 (tabList w) @ drop (Suc 0) (tabList w)"
    using assms(2) by simp_all
  from remove_present[OF assms(1) i t rest] assms(3)
  have r: "fst (Tabs_remove (tab_id (heap w t)) w) = Return ()"
    "tabList w' = []" "selected w' = None" "\<not> tabs_window w'"
    "win_destroy_calls (win w') = Suc (win_destroy_calls (win w))"
    by auto
  from dead_run_ops[OF r(2,3,4)] dead_destroy[OF r(2,3,4)] r show ?thesis by simp
qed

theorem remove_last_tab_cascade_witness:
  "tabs_inv world_one \<and> tabList world_one = [0] \<and> tab_id (heap world_one 0) = 1 \<and>
   win_destroy_calls (win world_one) = 0 \<and>
   fst (Tabs_remove 1 world_one) = Return () \<and>
   tabList (fst (snd (Tabs_remove 1 world_one))) = [] \<and>
   selected (fst (snd (Tabs_remove 1 world_one))) = None \<and>
   \<not> tabs_window (fst (snd (Tabs_remove 1 world_one))) \<and>
   win_destroy_calls (win (fst (snd (Tabs_remove 1 world_one)))) = 1"
proof -
  have h1: "tabs_inv world_one" unfolding world_one_def by code_simp
  have h2: "tabList world_one = [0]" unfolding world_one_def by code_simp
  have h3: "tab_id (heap world_one 0) = 1 \<and> win_destroy_calls (win world_one) = 0"
    unfolding world_one_def by code_simp
  show ?thesis using remove_last_tab_cascade[OF h1 h2 refl] h1 h2 h3 by simp
qed



text \<open>
  C3 fails on the code. The Tab is destroyed and stays so, and a second \<^verbatim>\<open>destroy()\<close>
  is the no-op the claim asks for: it returns at the \<^verbatim>\<open>destroyed\<close> guard. \<^verbatim>\<open>show()\<close> and
  \<^verbatim>\<open>hide()\<close> have no such guard: on the Tab of a one-tab collection, after its
  \<^verbatim>\<open>destroy()\<close>, each of them throws a TypeError at \<^verbatim>\<open>this.window\<close>, which
  \<^verbatim>\<open>destroy()\<close> has set to \<^verbatim>\<open>undefined\<close>. The world is unchanged by all three calls.
\<close>

theorem destroyed_tab_show_hide_throw:
  "live (heap world_one 0) \<and>
   fst (Tab_destroy 0 world_one) = Return () \<and> destroyed (heap world_one_destroyed 0) \<and>
   Tab_destroy 0 world_one_destroyed = (Return (), world_one_destroyed) \<and>
   Tab_show 0 world_one_destroyed = (Throw TypeError, world_one_destroyed) \<and>
   Tab_hide 0 world_one_destroyed = (Throw TypeError, world_one_destroyed) \<and>
   run_tab_calls 0 [Show, Destroy, Hide] world_one_destroyed = world_one_destroyed"
proof -
  have h: "live (heap world_one 0)" unfolding world_one_def by code_simp
  show ?thesis
    using destroyed_tab_calls[OF h world_one_destroyed_def] h by simp
qed

text \<open>
  C4 fails on the code. \<^verbatim>\<open>startResizeListener\<close> adds the listener with \<^verbatim>\<open>on\<close>, which
  does not look for duplicates, and \<^verbatim>\<open>show\<close> does not stop a running listener first.
  After \<^verbatim>\<open>show()\<close> twice in a row on the Tab of a one-tab collection the window holds
  its listener twice, and one resize recomputes its layout twice. The collection does this
  by itself: the second \<^verbatim>\<open>create()\<close> shows the new Tab and then selects it, which shows it
  again; the Tab is subscribed twice, one resize lays it out twice, and after its
  \<^verbatim>\<open>remove\<close> one subscription is left, so that the next resize throws a TypeError.
\<close>

theorem show_twice_subscribes_twice:
  "count_list (resize_listeners (win world_one)) 0 = 1 \<and>
   fst (Tab_show 0 world_one) = Return () \<and>
   count_list (resize_listeners (win (snd (Tab_show 0 world_one)))) 0 = 2 \<and>
   setBounds_calls (surface (heap (snd (Tab_show 0 world_one)) 0)) = 3 \<and>
   fst (window_resize (1024, 768) (snd (Tab_show 0 world_one))) = Return () \<and>
   setBounds_calls
     (surface (heap (snd (window_resize (1024, 768) (snd (Tab_show 0 world_one)))) 0)) = 5 \<and>
   count_list (resize_listeners (win world_two)) 1 = 2 \<and>
   setBounds_calls (surface (heap world_two 1)) = 2 \<and>
   setBounds_calls (surface (heap (snd (window_resize (1024, 768) world_two)) 1)) = 4 \<and>
   fst (Tabs_remove 2 world_two) = Return () \<and>
   resize_listeners (win (fst (snd (Tabs_remove 2 world_two)))) = [1, 0] \<and>
   fst (window_resize (1024, 768) (fst (snd (Tabs_remove 2 world_two)))) = Throw TypeError"
  unfolding world_two_def world_one_def by code_simp

end
